theory Spec2Isabelle
  imports Complex_Main "HOL-Library.Sublist" "HOL-Library.Multiset"
begin

section \<open>Podcast monitor service: a shallow embedding of index.js\<close>

text \<open>
  The service is one sequential chain of awaited calls to external collaborators (feed
  source, hosted database, speech-to-text, chat completion, mail relay). The embedding
  passes an explicit world (database tables, the trace of external requests issued so
  far, the mails handed to the relay) through every function; the outcome of the
  \<open>n\<close>-th external request is read from an environment indexed by \<open>n\<close>, so every
  theorem quantified over the environment covers every combination of failures of the
  collaborators. A \<open>try { ... } catch\<close> is a case split on a result of type
  \<open>error + 'a\<close>. Every request sent to a collaborator settles (it resolves or
  rejects); the one promise the program builds by hand, around the download of the audio
  (index.js 210-213), may never settle, and then nothing after it runs.
\<close>

subsection \<open>JavaScript values\<close>

text \<open>
  A JavaScript number as far as \<open>parseDuration\<close> needs it: \<open>NaN\<close> or an integer
  (exact in a double below \<open>2^53\<close>). Arithmetic with \<open>NaN\<close> yields \<open>NaN\<close>.
\<close>

datatype jsnum = NaN | Num int

fun js_mul :: "jsnum \<Rightarrow> jsnum \<Rightarrow> jsnum" where
  "js_mul (Num a) (Num b) = Num (a * b)"
| "js_mul _ _ = NaN"

fun js_add :: "jsnum \<Rightarrow> jsnum \<Rightarrow> jsnum" where
  "js_add (Num a) (Num b) = Num (a + b)"
| "js_add _ _ = NaN"

text \<open>\<open>String.prototype.split\<close> with a one-character separator.\<close>

fun split_on :: "char \<Rightarrow> string \<Rightarrow> string list" where
  "split_on c [] = [[]]"
| "split_on c (x # xs) =
     (if x = c then [] # split_on c xs
      else (case split_on c xs of
              [] \<Rightarrow> [[x]]
            | y # ys \<Rightarrow> (x # y) # ys))"

text \<open>
  \<open>parseDuration\<close> (index.js 563-572). The argument is \<open>item.itunes?.duration\<close>:
  \<open>None\<close> is \<open>undefined\<close>; the empty string is falsy as well. The built-in
  \<open>Number\<close> is a parameter.
\<close>

definition parseDuration :: "(string \<Rightarrow> jsnum) \<Rightarrow> string option \<Rightarrow> jsnum option" where
  "parseDuration Number duration =
     (case duration of
        None \<Rightarrow> None
      | Some d \<Rightarrow>
          if d = [] then None
          else (case map Number (split_on (CHR '':'') d) of
                  [h, m, s] \<Rightarrow>
                    Some (js_add (js_add (js_mul h (Num 3600)) (js_mul m (Num 60))) s)
                | [m, s] \<Rightarrow> Some (js_add (js_mul m (Num 60)) s)
                | _ \<Rightarrow> None))"

text \<open>
  A concrete \<open>Number\<close> on strings of decimal digits (the empty string is \<open>0\<close>, as in
  JavaScript); every other string is mapped to \<open>NaN\<close>. It serves as the instance at
  which the theorems below are evaluated.
\<close>

definition digit_val :: "char \<Rightarrow> nat option" where
  "digit_val c =
     (let n = of_char c :: nat in if 48 \<le> n \<and> n \<le> 57 then Some (n - 48) else None)"

fun digits_val :: "nat \<Rightarrow> string \<Rightarrow> jsnum" where
  "digits_val acc [] = Num (int acc)"
| "digits_val acc (c # cs) =
     (case digit_val c of None \<Rightarrow> NaN | Some d \<Rightarrow> digits_val (10 * acc + d) cs)"

definition decimal_Number :: "string \<Rightarrow> jsnum" where
  "decimal_Number s = digits_val 0 s"

text \<open>
  JSON values, as \<open>JSON.parse\<close> yields them. An object is the list of its
  properties in insertion order.
\<close>

datatype json =
    JNull
  | JBool bool
  | JNum rat
  | JStr string
  | JArr "json list"
  | JObj "(string \<times> json) list"

text \<open>
  A string that the program hands to \<open>JSON.parse\<close> or gets from \<open>JSON.stringify\<close>
  is represented by what parsing it gives: \<open>Json v\<close> is the serialisation of \<open>v\<close>,
  \<open>Raw s\<close> is a string \<open>s\<close> that is not valid JSON (\<open>Raw []\<close> is the empty
  string, the only falsy one).
\<close>

datatype jstext = Raw string | Json json

text \<open>
  What stops a computation: the exceptions that can be thrown, and \<open>NeverSettles\<close>,
  which is not an exception: the awaited promise never settles (or the process dies on
  an unhandled \<open>error\<close> event), so neither the rest of the function nor any
  \<open>catch\<close> block nor any caller runs.
\<close>

datatype error = TypeError | SyntaxError | RangeError | Rejected | NeverSettles

fun truthy :: "json \<Rightarrow> bool" where
  "truthy JNull = False"
| "truthy (JBool b) = b"
| "truthy (JNum n) = (n \<noteq> 0)"
| "truthy (JStr s) = (s \<noteq> [])"
| "truthy (JArr vs) = True"
| "truthy (JObj kvs) = True"

text \<open>Truthiness of a possibly \<open>undefined\<close> value, and of a possibly absent string.\<close>

definition truthy_opt :: "json option \<Rightarrow> bool" where
  "truthy_opt v = (case v of None \<Rightarrow> False | Some x \<Rightarrow> truthy x)"

definition truthy_str :: "string option \<Rightarrow> bool" where
  "truthy_str s = (case s of None \<Rightarrow> False | Some x \<Rightarrow> x \<noteq> [])"

text \<open>\<open>a || b\<close> on possibly absent strings.\<close>

definition or_str :: "string option \<Rightarrow> string option \<Rightarrow> string option" where
  "or_str a b = (if truthy_str a then a else b)"

text \<open>
  Reading a property \<open>v.k\<close>: a \<open>TypeError\<close> on \<open>null\<close>, the property (or
  \<open>undefined\<close>) on an object, \<open>undefined\<close> on the other values for the property
  names this program reads.
\<close>

fun get_prop :: "json \<Rightarrow> string \<Rightarrow> error + json option" where
  "get_prop JNull k = Inl TypeError"
| "get_prop (JObj kvs) k = Inr (map_of kvs k)"
| "get_prop v k = Inr None"

fun JSON_parse :: "jstext \<Rightarrow> error + json" where
  "JSON_parse (Raw s) = Inl SyntaxError"
| "JSON_parse (Json v) = Inr v"

text \<open>\<open>ai_summary || '{}'\<close>: the stored text, or the empty object when it is absent or empty.\<close>

definition or_empty_object :: "jstext option \<Rightarrow> jstext" where
  "or_empty_object t =
     (case t of
        None \<Rightarrow> Json (JObj [])
      | Some x \<Rightarrow> if x = Raw [] then Json (JObj []) else x)"

text \<open>Assigning a property of an object literal: replaced in place, or appended.\<close>

fun set_prop :: "string \<Rightarrow> json \<Rightarrow> (string \<times> json) list \<Rightarrow> (string \<times> json) list" where
  "set_prop k v [] = [(k, v)]"
| "set_prop k v (p # ps) = (if fst p = k then (k, v) # ps else p # set_prop k v ps)"

fun show_nat :: "nat \<Rightarrow> string" where
  "show_nat n =
     (if n < 10 then [char_of (48 + n)]
      else show_nat (n div 10) @ [char_of (48 + n mod 10)])"

text \<open>Object spread \<open>{...v}\<close>: the own enumerable properties of \<open>v\<close>.\<close>

fun spread :: "json \<Rightarrow> (string \<times> json) list" where
  "spread (JObj kvs) = kvs"
| "spread (JArr vs) = zip (map show_nat [0..<length vs]) vs"
| "spread (JStr s) = zip (map show_nat [0..<length s]) (map (\<lambda>c. JStr [c]) s)"
| "spread v = []"

text \<open>\<open>for (const x of v)\<close>: arrays and strings are iterable, nothing else is.\<close>

fun iterate_json :: "json \<Rightarrow> error + json list" where
  "iterate_json (JArr vs) = Inr vs"
| "iterate_json (JStr s) = Inr (map (\<lambda>c. JStr [c]) s)"
| "iterate_json v = Inl TypeError"

text \<open>\<open>toLowerCase\<close> on the ASCII letters.\<close>

definition lower_char :: "char \<Rightarrow> char" where
  "lower_char c =
     (let n = of_char c :: nat in if 65 \<le> n \<and> n \<le> 90 then char_of (n + 32) else c)"

definition toLowerCase :: "string \<Rightarrow> string" where
  "toLowerCase s = map lower_char s"

text \<open>\<open>String.prototype.includes\<close>.\<close>

fun includes_str :: "string \<Rightarrow> string \<Rightarrow> bool" where
  "includes_str pat [] = (pat = [])"
| "includes_str pat (c # cs) = (prefix pat (c # cs) \<or> includes_str pat cs)"

subsection \<open>Rows of the database and items of a feed\<close>

text \<open>Instants are milliseconds since the Unix epoch.\<close>

record podcast =
  p_id :: nat
  p_name :: string
  p_rss_url :: string
  p_is_active :: bool
  p_last_checked :: "int option"

record feed_item =
  i_title :: string
  i_contentSnippet :: "string option"
  i_content :: "string option"
  i_enclosure_url :: "string option"
  i_link :: "string option"
  i_pubDate :: "string option"
  i_isoDate :: "string option"
  i_itunes_duration :: "string option"

text \<open>The object \<open>episodeData\<close> that \<open>processNewEpisode\<close> inserts.\<close>

record episode_data =
  d_podcast_id :: nat
  d_title :: string
  d_description :: "string option"
  d_audio_url :: "string option"
  d_published_at :: int
  d_duration_seconds :: "jsnum option"
  d_processed :: bool

record episode =
  e_id :: nat
  e_podcast_id :: nat
  e_title :: string
  e_description :: "string option"
  e_audio_url :: "string option"
  e_published_at :: int
  e_duration_seconds :: "int option"
  e_processed :: bool
  e_transcript :: "string option"
  e_ai_summary :: "jstext option"

record interest_topic =
  t_id :: nat
  t_topic :: string
  t_is_active :: bool

record topic_flag =
  f_episode_id :: nat
  f_topic_id :: nat
  f_timestamp_start :: "json option"
  f_timestamp_end :: "json option"
  f_snippet :: "json option"
  f_analysis :: "json option"
  f_relevance_score :: "json option"

record user_setting =
  s_email :: "string option"

record database =
  podcasts :: "podcast list"
  episodes :: "episode list"
  topic_flags :: "topic_flag list"
  interest_topics :: "interest_topic list"
  user_settings :: "user_setting list"
  episode_seq :: nat

text \<open>
  A row of the digest query: the episode, the name of the joined podcast (absent when
  the join finds none) and the episode's flags, each with the joined topic name.
\<close>

record digest_row =
  r_episode :: episode
  r_podcasts :: "string option"
  r_topic_flags :: "(topic_flag \<times> string option) list"

text \<open>
  The digest markup is the sequence of pieces appended to \<open>html\<close>. The markup of one
  episode is a function of its row and of \<open>isPriority\<close>, and is represented by them.
\<close>

datatype fragment =
    Header
  | PriorityHeading
  | RegularHeading
  | EpisodeBlock digest_row bool
  | Footer

record mail =
  m_to :: string
  m_html :: "fragment list"

text \<open>What is sent to the chat-completion service.\<close>

datatype prompt =
    SummaryPrompt string string string bool
  | FlagsPrompt string string string bool

subsection \<open>The world and the environment\<close>

text \<open>One constructor per external request of the program.\<close>

datatype event =
    DbSelectPodcasts
  | RssFetch string
  | DbInsertEpisode episode_data
  | AudioDownload string
  | WhisperCall
  | FsUnlink
  | ClaudeSummary nat
  | DbSelectTopics
  | ClaudeFlags nat
  | DbUpdatePriority nat
  | DbUpdateEpisode nat
  | DbInsertFlags "topic_flag list"
  | DbUpdateLastChecked nat int
  | Sleep nat
  | DbSelectSettings
  | DbSelectDigest int
  | SendMail string

record world =
  db :: database
  trace :: "event list"
  outbox :: "mail list"

text \<open>
  An awaited promise rejects or resolves. A database request throws, resolves to
  \<open>{data: null, error}\<close> (the client's way to report a failure), or is carried out.
\<close>

datatype 'a outcome = Rejects | Resolves 'a

datatype fault = Throws | Fails | Accepted

text \<open>
  The download of the audio (index.js 197-213): the request is refused or the writer of
  the temporary file fails (both are thrown), the file is saved, or the response breaks
  off after its headers. In the last case \<open>pipe\<close> never ends the writer, which emits
  neither \<open>finish\<close> nor \<open>error\<close>: the awaited promise never settles (or the
  response's \<open>error\<close> event, which has no listener, ends the process), and either way
  nothing after the download runs.
\<close>

datatype download = Saved | Refused | BreaksOff

text \<open>
  The environment: the outcome of each external request as a function of the number of
  requests issued before it (and of what is sent), the clock read after \<open>n\<close> requests,
  and the built-ins \<open>Date\<close> parsing and \<open>Number\<close>.
\<close>

record env =
  db_fault :: "nat \<Rightarrow> fault"
  rss_parseURL :: "nat \<Rightarrow> string \<Rightarrow> feed_item list outcome"
  audio_download :: "nat \<Rightarrow> string \<Rightarrow> download"
  whisper :: "nat \<Rightarrow> string option outcome"
  fs_unlink :: "nat \<Rightarrow> bool"
  claude :: "nat \<Rightarrow> prompt \<Rightarrow> jstext outcome"
  smtp :: "nat \<Rightarrow> bool"
  clock :: "nat \<Rightarrow> int"
  js_Date_parse :: "string \<Rightarrow> int option"
  js_Number :: "string \<Rightarrow> jsnum"

definition calls :: "world \<Rightarrow> nat" where
  "calls w = length (trace w)"

definition request :: "event \<Rightarrow> world \<Rightarrow> world" where
  "request e w = w\<lparr>trace := trace w @ [e]\<rparr>"

text \<open>
  \<open>catch (error) { console.error(...) }\<close>: the error is logged and dropped. A
  promise that never settles is not caught.
\<close>

definition catch_log :: "(error + unit) \<times> world \<Rightarrow> (error + unit) \<times> world" where
  "catch_log r =
     (case r of
        (Inl e, w) \<Rightarrow> if e = NeverSettles then (Inl NeverSettles, w) else (Inr (), w)
      | (Inr u, w) \<Rightarrow> (Inr u, w))"

subsection \<open>Utility functions\<close>

text \<open>
  \<open>new Date(item.pubDate || item.isoDate)\<close>: \<open>None\<close> is the invalid date, which
  is what \<open>new Date(undefined)\<close> gives.
\<close>

definition publishDate :: "env \<Rightarrow> feed_item \<Rightarrow> int option" where
  "publishDate env item =
     (case or_str (i_pubDate item) (i_isoDate item) of
        None \<Rightarrow> None
      | Some s \<Rightarrow> js_Date_parse env s)"

text \<open>\<open>getAudioUrl\<close> (index.js 557-561).\<close>

definition getAudioUrl :: "feed_item \<Rightarrow> string option" where
  "getAudioUrl item =
     (if truthy_str (i_enclosure_url item) then i_enclosure_url item
      else (case i_link item of
              None \<Rightarrow> None
            | Some l \<Rightarrow> if includes_str ''.mp3'' l then Some l else None))"

subsection \<open>Database requests that are carried out\<close>

text \<open>
  \<open>insert(episodeData).select().single()\<close>: the database assigns the id and returns
  the stored row. A \<open>NaN\<close> duration is serialised as \<open>null\<close>.
\<close>

definition insert_episode :: "episode_data \<Rightarrow> database \<Rightarrow> episode \<times> database" where
  "insert_episode d dbs =
     (let row = \<lparr>e_id = episode_seq dbs,
                 e_podcast_id = d_podcast_id d,
                 e_title = d_title d,
                 e_description = d_description d,
                 e_audio_url = d_audio_url d,
                 e_published_at = d_published_at d,
                 e_duration_seconds =
                   (case d_duration_seconds d of Some (Num n) \<Rightarrow> Some n | _ \<Rightarrow> None),
                 e_processed = d_processed d,
                 e_transcript = None,
                 e_ai_summary = None\<rparr>
      in (row, dbs\<lparr>episodes := episodes dbs @ [row], episode_seq := Suc (episode_seq dbs)\<rparr>))"

definition update_episodes :: "nat \<Rightarrow> (episode \<Rightarrow> episode) \<Rightarrow> database \<Rightarrow> database" where
  "update_episodes i f dbs =
     dbs\<lparr>episodes := map (\<lambda>e. if e_id e = i then f e else e) (episodes dbs)\<rparr>"

definition update_last_checked :: "nat \<Rightarrow> int \<Rightarrow> database \<Rightarrow> database" where
  "update_last_checked i now dbs =
     dbs\<lparr>podcasts :=
           map (\<lambda>p. if p_id p = i then p\<lparr>p_last_checked := Some now\<rparr> else p) (podcasts dbs)\<rparr>"

definition insert_flags :: "topic_flag list \<Rightarrow> database \<Rightarrow> database" where
  "insert_flags fs dbs = dbs\<lparr>topic_flags := topic_flags dbs @ fs\<rparr>"

text \<open>
  The digest query: episodes with \<open>published_at >= since\<close> and \<open>processed = true\<close>,
  ordered by \<open>published_at\<close> descending, joined with the podcast name and the flags.
\<close>

definition join_row :: "database \<Rightarrow> episode \<Rightarrow> digest_row" where
  "join_row dbs e =
     \<lparr>r_episode = e,
      r_podcasts = map_option p_name (find (\<lambda>p. p_id p = e_podcast_id e) (podcasts dbs)),
      r_topic_flags =
        map (\<lambda>f. (f, map_option t_topic (find (\<lambda>t. t_id t = f_topic_id f) (interest_topics dbs))))
          (filter (\<lambda>f. f_episode_id f = e_id e) (topic_flags dbs))\<rparr>"

definition select_digest :: "int \<Rightarrow> database \<Rightarrow> digest_row list" where
  "select_digest since dbs =
     map (join_row dbs)
       (sort_key (\<lambda>e. - e_published_at e)
          (filter (\<lambda>e. since \<le> e_published_at e \<and> e_processed e) (episodes dbs)))"

subsection \<open>The AI pipeline\<close>

text \<open>
  \<open>transcribeAudio\<close> (index.js 190-241): download to a temporary file, post it to the
  speech-to-text service, remove the file. Whatever is thrown is caught and gives
  \<open>null\<close>; the function returns \<open>Inr\<close> of the transcript or of \<open>null\<close>, and
  \<open>Inl NeverSettles\<close> when the download breaks off.
\<close>

definition transcribeAudio ::
  "env \<Rightarrow> string option \<Rightarrow> world \<Rightarrow> (error + string option) \<times> world" where
  "transcribeAudio env audioUrl w =
     (if \<not> truthy_str audioUrl then (Inr None, w)
      else
        let w1 = request (AudioDownload (the audioUrl)) w in
        (case audio_download env (calls w) (the audioUrl) of
           BreaksOff \<Rightarrow> (Inl NeverSettles, w1)
         | Refused \<Rightarrow> (Inr None, w1)
         | Saved \<Rightarrow>
             let w2 = request WhisperCall w1 in
             (case whisper env (calls w1) of
                Rejects \<Rightarrow> (Inr None, w2)
              | Resolves t \<Rightarrow>
                  let w3 = request FsUnlink w2 in
                  if fs_unlink env (calls w2) then (Inr t, w3) else (Inr None, w3))))"

text \<open>Whether a call of \<open>transcribeAudio\<close> returned a transcript that is truthy.\<close>

definition has_transcript :: "(error + string option) \<times> world \<Rightarrow> bool" where
  "has_transcript r = (case fst r of Inl e \<Rightarrow> False | Inr t \<Rightarrow> truthy_str t)"

text \<open>
  An environment settles when no download of audio breaks off after its headers: then
  every promise of the program settles.
\<close>

definition settles :: "env \<Rightarrow> bool" where
  "settles env = (\<forall>n u. audio_download env n u \<noteq> BreaksOff)"

definition fallback_summary :: json where
  "fallback_summary =
     JObj [(''guest'', JStr ''Unknown''),
           (''summary_paragraphs'',
              JArr [JStr ''AI summary generation failed. Manual review required.'']),
           (''key_topics'', JArr []),
           (''main_arguments'', JArr []),
           (''notable_quotes'', JArr [])]"

definition summary_prompt :: "episode \<Rightarrow> string \<Rightarrow> prompt" where
  "summary_prompt ep transcript =
     SummaryPrompt (e_title ep)
       (case or_str (e_description ep) (Some []) of None \<Rightarrow> [] | Some s \<Rightarrow> s)
       (take 8000 transcript) (8000 < length transcript)"

text \<open>\<open>generateEnhancedSummary\<close> (index.js 244-296).\<close>

definition generateEnhancedSummary :: "env \<Rightarrow> episode \<Rightarrow> string \<Rightarrow> world \<Rightarrow> jstext \<times> world" where
  "generateEnhancedSummary env ep transcript w =
     (let w1 = request (ClaudeSummary (e_id ep)) w in
      case claude env (calls w) (summary_prompt ep transcript) of
        Rejects \<Rightarrow> (Json fallback_summary, w1)
      | Resolves t \<Rightarrow> (t, w1))"

definition join_comma :: "string list \<Rightarrow> string" where
  "join_comma xs = (case xs of [] \<Rightarrow> [] | y # ys \<Rightarrow> foldl (\<lambda>acc s. acc @ '', '' @ s) y ys)"

definition flags_prompt :: "interest_topic list \<Rightarrow> episode \<Rightarrow> string \<Rightarrow> prompt" where
  "flags_prompt topics ep transcript =
     FlagsPrompt (join_comma (map t_topic topics)) (e_title ep)
       (take 12000 transcript) (12000 < length transcript)"

text \<open>\<open>analysis.topic_flags || []\<close>, iterated by \<open>for ... of\<close>.\<close>

definition flag_candidates :: "json \<Rightarrow> error + json list" where
  "flag_candidates analysis =
     (case get_prop analysis ''topic_flags'' of
        Inl e \<Rightarrow> Inl e
      | Inr v \<Rightarrow> if truthy_opt v then iterate_json (the v) else Inr [])"

text \<open>
  \<open>topics.find(t => t.topic.toLowerCase() === flag.topic.toLowerCase())\<close>: the callback
  runs on the first topic at least, and throws there unless \<open>flag.topic\<close> is a string.
\<close>

definition find_topic :: "interest_topic list \<Rightarrow> json \<Rightarrow> error + interest_topic option" where
  "find_topic topics flag =
     (if topics = [] then Inr None
      else (case get_prop flag ''topic'' of
              Inl e \<Rightarrow> Inl e
            | Inr (Some (JStr s)) \<Rightarrow>
                Inr (find (\<lambda>t. toLowerCase (t_topic t) = toLowerCase s) topics)
            | Inr _ \<Rightarrow> Inl TypeError))"

definition field :: "json \<Rightarrow> string \<Rightarrow> json option" where
  "field v k = (case get_prop v k of Inl e \<Rightarrow> None | Inr x \<Rightarrow> x)"

definition flag_row :: "nat \<Rightarrow> interest_topic \<Rightarrow> json \<Rightarrow> topic_flag" where
  "flag_row eid topic flag =
     \<lparr>f_episode_id = eid,
      f_topic_id = t_id topic,
      f_timestamp_start = field flag ''timestamp_start'',
      f_timestamp_end = field flag ''timestamp_end'',
      f_snippet = field flag ''snippet'',
      f_analysis = field flag ''analysis'',
      f_relevance_score = field flag ''relevance_score''\<rparr>"

fun convert_flags :: "nat \<Rightarrow> interest_topic list \<Rightarrow> json list \<Rightarrow> error + topic_flag list" where
  "convert_flags eid topics [] = Inr []"
| "convert_flags eid topics (flag # rest) =
     (case find_topic topics flag of
        Inl e \<Rightarrow> Inl e
      | Inr found \<Rightarrow>
          (case convert_flags eid topics rest of
             Inl e \<Rightarrow> Inl e
           | Inr flags \<Rightarrow>
               (case found of
                  None \<Rightarrow> Inr flags
                | Some topic \<Rightarrow> Inr (flag_row eid topic flag # flags))))"

text \<open>
  The text written by the priority update:
  \<open>JSON.stringify({...JSON.parse(episode.ai_summary || '{}'), priority_episode: true,
  priority_topics: analysis.priority_topics})\<close>. An \<open>undefined\<close> property is left out
  by \<open>JSON.stringify\<close>.
\<close>

definition priority_summary :: "episode \<Rightarrow> json \<Rightarrow> error + jstext" where
  "priority_summary ep analysis =
     (case JSON_parse (or_empty_object (e_ai_summary ep)) of
        Inl e \<Rightarrow> Inl e
      | Inr old \<Rightarrow>
          let marked = set_prop ''priority_episode'' (JBool True) (spread old) in
          Inr (Json (JObj
            (case field analysis ''priority_topics'' of
               None \<Rightarrow> filter (\<lambda>kv. fst kv \<noteq> ''priority_topics'') marked
             | Some ts \<Rightarrow> set_prop ''priority_topics'' ts marked))))"

text \<open>\<open>flagInterestTopics\<close> (index.js 299-393): the \<open>try\<close> block, then the function.\<close>

definition flagInterestTopics_try ::
  "env \<Rightarrow> episode \<Rightarrow> string \<Rightarrow> world \<Rightarrow> (error + topic_flag list) \<times> world" where
  "flagInterestTopics_try env ep transcript w =
     (let w1 = request DbSelectTopics w in
      case db_fault env (calls w) of
        Throws \<Rightarrow> (Inl Rejected, w1)
      | Fails \<Rightarrow> (Inr [], w1)
      | Accepted \<Rightarrow>
          let topics = filter t_is_active (interest_topics (db w)) in
          if topics = [] then (Inr [], w1)
          else
            let w2 = request (ClaudeFlags (e_id ep)) w1 in
            (case claude env (calls w1) (flags_prompt topics ep transcript) of
               Rejects \<Rightarrow> (Inl Rejected, w2)
             | Resolves t \<Rightarrow>
                 (case JSON_parse t of
                    Inl e \<Rightarrow> (Inl e, w2)
                  | Inr analysis \<Rightarrow>
                      (case flag_candidates analysis of
                         Inl e \<Rightarrow> (Inl e, w2)
                       | Inr cands \<Rightarrow>
                           (case convert_flags (e_id ep) topics cands of
                              Inl e \<Rightarrow> (Inl e, w2)
                            | Inr flags \<Rightarrow>
                                if \<not> truthy_opt (field analysis ''priority_episode'')
                                then (Inr flags, w2)
                                else
                                  (case priority_summary ep analysis of
                                     Inl e \<Rightarrow> (Inl e, w2)
                                   | Inr txt \<Rightarrow>
                                       let w3 = request (DbUpdatePriority (e_id ep)) w2 in
                                       (case db_fault env (calls w2) of
                                          Throws \<Rightarrow> (Inl Rejected, w3)
                                        | Fails \<Rightarrow> (Inr flags, w3)
                                        | Accepted \<Rightarrow>
                                            (Inr flags,
                                             w3\<lparr>db := update_episodes (e_id ep)
                                                    (\<lambda>e. e\<lparr>e_ai_summary := Some txt\<rparr>) (db w3)\<rparr>))))))))"

definition flagInterestTopics ::
  "env \<Rightarrow> episode \<Rightarrow> string \<Rightarrow> world \<Rightarrow> topic_flag list \<times> world" where
  "flagInterestTopics env ep transcript w =
     (case flagInterestTopics_try env ep transcript w of
        (Inl e, w') \<Rightarrow> ([], w')
      | (Inr flags, w') \<Rightarrow> (flags, w'))"

text \<open>\<open>processEpisodeAI\<close> (index.js 147-187): the \<open>try\<close> block, then the function.\<close>

definition processEpisodeAI_try :: "env \<Rightarrow> episode \<Rightarrow> world \<Rightarrow> (error + unit) \<times> world" where
  "processEpisodeAI_try env ep w =
     (case transcribeAudio env (e_audio_url ep) w of
        (Inl e, w1) \<Rightarrow> (Inl e, w1)
      | (Inr transcript, w1) \<Rightarrow>
          if \<not> truthy_str transcript then (Inr (), w1)
          else
            (case generateEnhancedSummary env ep (the transcript) w1 of
               (aiSummary, w2) \<Rightarrow>
                 (case flagInterestTopics env ep (the transcript) w2 of
                    (topicFlags, w3) \<Rightarrow>
                      let w4 = request (DbUpdateEpisode (e_id ep)) w3 in
                      (case db_fault env (calls w3) of
                         Throws \<Rightarrow> (Inl Rejected, w4)
                       | f \<Rightarrow>
                           let w5 =
                             (if f = Accepted
                              then w4\<lparr>db := update_episodes (e_id ep)
                                       (\<lambda>e. e\<lparr>e_transcript := transcript,
                                              e_ai_summary := Some aiSummary,
                                              e_processed := True\<rparr>) (db w4)\<rparr>
                              else w4) in
                           if topicFlags = [] then (Inr (), w5)
                           else
                             let w6 = request (DbInsertFlags topicFlags) w5 in
                             (case db_fault env (calls w5) of
                                Throws \<Rightarrow> (Inl Rejected, w6)
                              | Fails \<Rightarrow> (Inr (), w6)
                              | Accepted \<Rightarrow>
                                  (Inr (), w6\<lparr>db := insert_flags topicFlags (db w6)\<rparr>))))))"

definition processEpisodeAI :: "env \<Rightarrow> episode \<Rightarrow> world \<Rightarrow> (error + unit) \<times> world" where
  "processEpisodeAI env ep w = catch_log (processEpisodeAI_try env ep w)"

subsection \<open>Feed checking\<close>

text \<open>
  The object literal of \<open>processNewEpisode\<close>. \<open>toISOString\<close> throws a
  \<open>RangeError\<close> on an invalid date.
\<close>

definition episodeData :: "env \<Rightarrow> podcast \<Rightarrow> feed_item \<Rightarrow> error + episode_data" where
  "episodeData env podcast item =
     (case publishDate env item of
        None \<Rightarrow> Inl RangeError
      | Some t \<Rightarrow>
          Inr \<lparr>d_podcast_id = p_id podcast,
               d_title = i_title item,
               d_description = or_str (i_contentSnippet item) (i_content item),
               d_audio_url = getAudioUrl item,
               d_published_at = t,
               d_duration_seconds = parseDuration (js_Number env) (i_itunes_duration item),
               d_processed = False\<rparr>)"

text \<open>\<open>processNewEpisode\<close> (index.js 114-144): the \<open>try\<close> block, then the function.\<close>

definition processNewEpisode_try ::
  "env \<Rightarrow> podcast \<Rightarrow> feed_item \<Rightarrow> world \<Rightarrow> (error + unit) \<times> world" where
  "processNewEpisode_try env podcast item w =
     (case episodeData env podcast item of
        Inl e \<Rightarrow> (Inl e, w)
      | Inr d \<Rightarrow>
          let w1 = request (DbInsertEpisode d) w in
          (case db_fault env (calls w) of
             Throws \<Rightarrow> (Inl Rejected, w1)
           | Fails \<Rightarrow> (Inl Rejected, w1)
           | Accepted \<Rightarrow>
               (case insert_episode d (db w1) of
                  (episode, dbs) \<Rightarrow> processEpisodeAI env episode (w1\<lparr>db := dbs\<rparr>))))"

definition processNewEpisode ::
  "env \<Rightarrow> podcast \<Rightarrow> feed_item \<Rightarrow> world \<Rightarrow> (error + unit) \<times> world" where
  "processNewEpisode env podcast item w = catch_log (processNewEpisode_try env podcast item w)"

text \<open>
  \<open>podcast.last_checked ? new Date(podcast.last_checked) : new Date(0)\<close>, and the test
  \<open>publishDate > lastChecked\<close>, which is false for an invalid date.
\<close>

definition lastChecked :: "podcast \<Rightarrow> int" where
  "lastChecked podcast = (case p_last_checked podcast of None \<Rightarrow> 0 | Some t \<Rightarrow> t)"

definition is_newer :: "env \<Rightarrow> int \<Rightarrow> feed_item \<Rightarrow> bool" where
  "is_newer env since item = (case publishDate env item of None \<Rightarrow> False | Some t \<Rightarrow> since < t)"

text \<open>
  The loop over \<open>feed.items\<close> (index.js 88-96). The counter \<open>newEpisodesCount\<close> only
  feeds a log line.
\<close>

fun items_loop ::
  "env \<Rightarrow> podcast \<Rightarrow> int \<Rightarrow> feed_item list \<Rightarrow> world \<Rightarrow> (error + unit) \<times> world" where
  "items_loop env podcast since [] w = (Inr (), w)"
| "items_loop env podcast since (item # rest) w =
     (if is_newer env since item
      then (case processNewEpisode env podcast item w of
              (Inl e, w1) \<Rightarrow> (Inl e, w1)
            | (Inr u, w1) \<Rightarrow> items_loop env podcast since rest w1)
      else items_loop env podcast since rest w)"

text \<open>\<open>processPodcastFeed\<close> (index.js 79-111): the \<open>try\<close> block, then the function.\<close>

definition processPodcastFeed_try :: "env \<Rightarrow> podcast \<Rightarrow> world \<Rightarrow> (error + unit) \<times> world" where
  "processPodcastFeed_try env podcast w =
     (let w1 = request (RssFetch (p_rss_url podcast)) w in
      case rss_parseURL env (calls w) (p_rss_url podcast) of
        Rejects \<Rightarrow> (Inl Rejected, w1)
      | Resolves items \<Rightarrow>
          (case items_loop env podcast (lastChecked podcast) items w1 of
             (Inl e, w2) \<Rightarrow> (Inl e, w2)
           | (Inr u, w2) \<Rightarrow>
               let now = clock env (calls w2);
                   w3 = request (DbUpdateLastChecked (p_id podcast) now) w2 in
               (case db_fault env (calls w2) of
                  Throws \<Rightarrow> (Inl Rejected, w3)
                | Fails \<Rightarrow> (Inr (), w3)
                | Accepted \<Rightarrow>
                    (Inr (), w3\<lparr>db := update_last_checked (p_id podcast) now (db w3)\<rparr>))))"

definition processPodcastFeed :: "env \<Rightarrow> podcast \<Rightarrow> world \<Rightarrow> (error + unit) \<times> world" where
  "processPodcastFeed env podcast w = catch_log (processPodcastFeed_try env podcast w)"

text \<open>
  The loop of \<open>checkAllFeeds\<close> (index.js 66-70): one feed, then a timer of 2000 ms.
\<close>

fun feeds_loop :: "env \<Rightarrow> podcast list \<Rightarrow> world \<Rightarrow> (error + unit) \<times> world" where
  "feeds_loop env [] w = (Inr (), w)"
| "feeds_loop env (podcast # rest) w =
     (case processPodcastFeed env podcast w of
        (Inl e, w1) \<Rightarrow> (Inl e, w1)
      | (Inr u, w1) \<Rightarrow> feeds_loop env rest (request (Sleep 2000) w1))"

text \<open>\<open>checkAllFeeds\<close> (index.js 54-76): the \<open>try\<close> block, then the function.\<close>

definition checkAllFeeds_try :: "env \<Rightarrow> world \<Rightarrow> (error + unit) \<times> world" where
  "checkAllFeeds_try env w =
     (let w1 = request DbSelectPodcasts w in
      case db_fault env (calls w) of
        Throws \<Rightarrow> (Inl Rejected, w1)
      | Fails \<Rightarrow> (Inl Rejected, w1)
      | Accepted \<Rightarrow> feeds_loop env (filter p_is_active (podcasts (db w))) w1)"

definition checkAllFeeds :: "env \<Rightarrow> world \<Rightarrow> (error + unit) \<times> world" where
  "checkAllFeeds env w = catch_log (checkAllFeeds_try env w)"

subsection \<open>The daily digest\<close>

text \<open>
  The filter of \<open>generateDigestHTML\<close> (index.js 451-458): the parsed summary's
  \<open>priority_episode\<close>, or \<open>false\<close> when parsing or the property read throws.
\<close>

definition is_priority :: "digest_row \<Rightarrow> bool" where
  "is_priority row =
     (case JSON_parse (or_empty_object (e_ai_summary (r_episode row))) of
        Inl e \<Rightarrow> False
      | Inr summary \<Rightarrow>
          (case get_prop summary ''priority_episode'' of
             Inl e \<Rightarrow> False
           | Inr v \<Rightarrow> truthy_opt v))"

text \<open>
  \<open>generateEpisodeHTML\<close> (index.js 500-554). Only the parse of \<open>ai_summary\<close> is
  guarded; the function throws a \<open>TypeError\<close> when the joined podcast is null, when
  the summary parses to \<open>null\<close>, when \<open>summary_paragraphs\<close> is truthy and has no
  \<open>forEach\<close> (it is not an array), and when a flag's joined topic is null.
\<close>

definition parsed_summary :: "digest_row \<Rightarrow> json" where
  "parsed_summary row =
     (case JSON_parse (or_empty_object (e_ai_summary (r_episode row))) of
        Inl e \<Rightarrow> JObj []
      | Inr summary \<Rightarrow> summary)"

fun is_array :: "json \<Rightarrow> bool" where
  "is_array (JArr vs) = True"
| "is_array v = False"

definition paragraphs_ok :: "json \<Rightarrow> bool" where
  "paragraphs_ok summary =
     (case get_prop summary ''summary_paragraphs'' of
        Inl e \<Rightarrow> False
      | Inr v \<Rightarrow> \<not> truthy_opt v \<or> is_array (the v))"

definition renders :: "digest_row \<Rightarrow> bool" where
  "renders row =
     (r_podcasts row \<noteq> None
      \<and> parsed_summary row \<noteq> JNull
      \<and> paragraphs_ok (parsed_summary row)
      \<and> list_all (\<lambda>ft. snd ft \<noteq> None) (r_topic_flags row))"

definition generateEpisodeHTML :: "digest_row \<Rightarrow> bool \<Rightarrow> error + fragment" where
  "generateEpisodeHTML row isPriority =
     (if renders row then Inr (EpisodeBlock row isPriority) else Inl TypeError)"

text \<open>\<open>forEach(episode => { html += generateEpisodeHTML(episode, flag) })\<close>.\<close>

fun render_all :: "bool \<Rightarrow> digest_row list \<Rightarrow> error + fragment list" where
  "render_all isPriority [] = Inr []"
| "render_all isPriority (row # rest) =
     (case generateEpisodeHTML row isPriority of
        Inl e \<Rightarrow> Inl e
      | Inr block \<Rightarrow>
          (case render_all isPriority rest of
             Inl e \<Rightarrow> Inl e
           | Inr blocks \<Rightarrow> Inr (block # blocks)))"

text \<open>
  \<open>generateDigestHTML\<close> (index.js 450-497). \<open>priorityEpisodes.includes(ep)\<close>
  compares row objects; the rows of one query result are distinct objects, and a row
  is among the filtered ones exactly when it passed the filter.
\<close>

definition generateDigestHTML :: "digest_row list \<Rightarrow> error + fragment list" where
  "generateDigestHTML rows =
     (let priorityEpisodes = filter is_priority rows;
          regularEpisodes = filter (\<lambda>ep. ep \<notin> set priorityEpisodes) rows
      in case (if priorityEpisodes \<noteq> []
               then map_sum id (\<lambda>bs. PriorityHeading # bs) (render_all True priorityEpisodes)
               else Inr []) of
           Inl e \<Rightarrow> Inl e
         | Inr pri \<Rightarrow>
             (case (if regularEpisodes \<noteq> []
                    then map_sum id (\<lambda>bs. RegularHeading # bs) (render_all False regularEpisodes)
                    else Inr []) of
                Inl e \<Rightarrow> Inl e
              | Inr reg \<Rightarrow> Inr ([Header] @ pri @ reg @ [Footer])))"

text \<open>\<open>.single()\<close>: the one row of the result, \<open>null\<close> when there is none or several.\<close>

definition single :: "'a list \<Rightarrow> 'a option" where
  "single rows = (case rows of [r] \<Rightarrow> Some r | _ \<Rightarrow> None)"

definition settings_email :: "user_setting option \<Rightarrow> string option" where
  "settings_email settings = (case settings of None \<Rightarrow> None | Some s \<Rightarrow> s_email s)"

text \<open>\<open>sendDailyDigest\<close> (index.js 396-447): the \<open>try\<close> block, then the function.\<close>

definition sendDailyDigest_try :: "env \<Rightarrow> world \<Rightarrow> (error + unit) \<times> world" where
  "sendDailyDigest_try env w =
     (let w1 = request DbSelectSettings w in
      case db_fault env (calls w) of
        Throws \<Rightarrow> (Inl Rejected, w1)
      | f \<Rightarrow>
          let settings = (if f = Accepted then single (user_settings (db w)) else None) in
          if \<not> truthy_str (settings_email settings) then (Inr (), w1)
          else
            let yesterday = clock env (calls w1) - 24 * 60 * 60 * 1000;
                w2 = request (DbSelectDigest yesterday) w1 in
            (case db_fault env (calls w1) of
               Throws \<Rightarrow> (Inl Rejected, w2)
             | Fails \<Rightarrow> (Inr (), w2)
             | Accepted \<Rightarrow>
                 let episodes = select_digest yesterday (db w1) in
                 if episodes = [] then (Inr (), w2)
                 else
                   (case generateDigestHTML episodes of
                      Inl e \<Rightarrow> (Inl e, w2)
                    | Inr htmlContent \<Rightarrow>
                        let w3 = request (SendMail (the (settings_email settings))) w2 in
                        if smtp env (calls w2)
                        then (Inr (),
                              w3\<lparr>outbox := outbox w3 @
                                   [\<lparr>m_to = the (settings_email settings),
                                     m_html = htmlContent\<rparr>]\<rparr>)
                        else (Inl Rejected, w3))))"

definition sendDailyDigest :: "env \<Rightarrow> world \<Rightarrow> (error + unit) \<times> world" where
  "sendDailyDigest env w = catch_log (sendDailyDigest_try env w)"

text \<open>
  The conditions under which \<open>sendDailyDigest\<close> reaches \<open>sendMail\<close> and the relay
  takes the mail: both queries are answered, an address is configured, the second query
  has rows, every row renders, and the relay accepts.
\<close>

definition mail_goes_out :: "env \<Rightarrow> world \<Rightarrow> bool" where
  "mail_goes_out env w =
     (let rows = select_digest (clock env (Suc (calls w)) - 24 * 60 * 60 * 1000) (db w)
      in db_fault env (calls w) = Accepted
         \<and> truthy_str (settings_email (single (user_settings (db w))))
         \<and> db_fault env (Suc (calls w)) = Accepted
         \<and> rows \<noteq> []
         \<and> list_all renders rows
         \<and> smtp env (Suc (Suc (calls w))))"

subsection \<open>Triggers: the cron jobs and the HTTP endpoints\<close>

text \<open>The cron callbacks (index.js 42-51) log a line and await the operation.\<close>

definition cron_check_feeds :: "env \<Rightarrow> world \<Rightarrow> (error + unit) \<times> world" where
  "cron_check_feeds env w = checkAllFeeds env w"

definition cron_send_digest :: "env \<Rightarrow> world \<Rightarrow> (error + unit) \<times> world" where
  "cron_send_digest env w = sendDailyDigest env w"

text \<open>
  The handlers of \<open>POST /check-feeds\<close> and \<open>POST /send-digest\<close> (index.js 604-620)
  answer with a status and the \<open>success\<close> field of the body; no answer is sent
  (\<open>None\<close>) when the awaited operation never settles.
\<close>

record response =
  status :: nat
  success :: bool

definition respond :: "(error + unit) \<times> world \<Rightarrow> response option \<times> world" where
  "respond r =
     (case r of
        (Inr u, w') \<Rightarrow> (Some \<lparr>status = 200, success = True\<rparr>, w')
      | (Inl e, w') \<Rightarrow>
          (if e = NeverSettles then None else Some \<lparr>status = 500, success = False\<rparr>, w'))"

definition post_check_feeds :: "env \<Rightarrow> world \<Rightarrow> response option \<times> world" where
  "post_check_feeds env w = respond (checkAllFeeds env w)"

definition post_send_digest :: "env \<Rightarrow> world \<Rightarrow> response option \<times> world" where
  "post_send_digest env w = respond (sendDailyDigest env w)"

subsection \<open>Observing a run\<close>

text \<open>The requests issued between an earlier world and a later one, oldest first.\<close>

definition issued :: "world \<Rightarrow> world \<Rightarrow> event list" where
  "issued w w' = drop (length (trace w)) (trace w')"

text \<open>The episodes handed to the database for insertion, and the feeds fetched.\<close>

fun inserted :: "event list \<Rightarrow> episode_data list" where
  "inserted [] = []"
| "inserted (DbInsertEpisode d # es) = d # inserted es"
| "inserted (e # es) = inserted es"

fun fetched :: "event list \<Rightarrow> string list" where
  "fetched [] = []"
| "fetched (RssFetch u # es) = u # fetched es"
| "fetched (e # es) = fetched es"

text \<open>The requests of the AI pipeline, and those made while one feed is handled.\<close>

fun ai_event :: "event \<Rightarrow> bool" where
  "ai_event (AudioDownload u) = True"
| "ai_event WhisperCall = True"
| "ai_event FsUnlink = True"
| "ai_event (ClaudeSummary i) = True"
| "ai_event DbSelectTopics = True"
| "ai_event (ClaudeFlags i) = True"
| "ai_event (DbUpdatePriority i) = True"
| "ai_event (DbUpdateEpisode i) = True"
| "ai_event (DbInsertFlags fs) = True"
| "ai_event e = False"

fun feed_event :: "event \<Rightarrow> bool" where
  "feed_event (DbInsertEpisode d) = True"
| "feed_event (DbUpdateLastChecked i t) = True"
| "feed_event e = ai_event e"

text \<open>The stages of the pipeline, and the stage a request belongs to.\<close>

datatype stage = FetchAudio | Transcribe | Summarize | FlagTopics | Persist

fun stage_of :: "event \<Rightarrow> stage option" where
  "stage_of (AudioDownload u) = Some FetchAudio"
| "stage_of WhisperCall = Some Transcribe"
| "stage_of FsUnlink = Some Transcribe"
| "stage_of (ClaudeSummary i) = Some Summarize"
| "stage_of DbSelectTopics = Some FlagTopics"
| "stage_of (ClaudeFlags i) = Some FlagTopics"
| "stage_of (DbUpdatePriority i) = Some FlagTopics"
| "stage_of (DbUpdateEpisode i) = Some Persist"
| "stage_of (DbInsertFlags fs) = Some Persist"
| "stage_of e = None"

text \<open>The stages entered, in order: consecutive requests of one stage count once.\<close>

definition stages_run :: "event list \<Rightarrow> stage list" where
  "stages_run es = remdups_adj (List.map_filter stage_of es)"

text \<open>The episodes rendered in a digest, each with the section flag it was rendered with.\<close>

fun blocks :: "fragment list \<Rightarrow> (digest_row \<times> bool) list" where
  "blocks [] = []"
| "blocks (EpisodeBlock row b # fs) = (row, b) # blocks fs"
| "blocks (f # fs) = blocks fs"

text \<open>The stage of every request, one entry per request.\<close>

definition stage_requests :: "event list \<Rightarrow> stage list" where
  "stage_requests es = List.map_filter stage_of es"

text \<open>The ids of the episodes rendered in a digest, in order, with their section flag.\<close>

definition block_ids :: "fragment list \<Rightarrow> (nat \<times> bool) list" where
  "block_ids html = map (\<lambda>rb. (e_id (r_episode (fst rb)), snd rb)) (blocks html)"

text \<open>
  The markup of a digest whose episodes all render: header, the priority section when
  it is not empty, the section of the other episodes when it is not empty, footer.
\<close>

definition digest_markup :: "digest_row list \<Rightarrow> fragment list" where
  "digest_markup rows =
     [Header]
     @ (if filter is_priority rows \<noteq> []
        then PriorityHeading # map (\<lambda>r. EpisodeBlock r True) (filter is_priority rows)
        else [])
     @ (if filter (\<lambda>r. \<not> is_priority r) rows \<noteq> []
        then RegularHeading # map (\<lambda>r. EpisodeBlock r False) (filter (\<lambda>r. \<not> is_priority r) rows)
        else [])
     @ [Footer]"

subsection \<open>Concrete inputs\<close>

text \<open>
  A podcast that was never checked, a feed with a dated and an undated item, an
  environment in which every request succeeds and the topic-flagging reply marks the
  episode as a priority episode, and worlds for the digest.
\<close>

definition demo_podcast :: podcast where
  "demo_podcast =
     \<lparr>p_id = 1, p_name = ''Show'', p_rss_url = ''https://example.org/feed'',
      p_is_active = True, p_last_checked = None\<rparr>"

definition dated_item :: feed_item where
  "dated_item =
     \<lparr>i_title = ''Episode one'', i_contentSnippet = Some ''about'', i_content = None,
      i_enclosure_url = Some ''https://example.org/1.mp3'', i_link = None,
      i_pubDate = Some ''2024-01-01'', i_isoDate = None,
      i_itunes_duration = Some ''1:02:03''\<rparr>"

definition undated_item :: feed_item where
  "undated_item =
     \<lparr>i_title = ''Episode two'', i_contentSnippet = Some ''more'', i_content = None,
      i_enclosure_url = Some ''https://example.org/2.mp3'', i_link = None,
      i_pubDate = None, i_isoDate = None,
      i_itunes_duration = None\<rparr>"

definition demo_summary :: json where
  "demo_summary = JObj [(''guest'', JStr ''Ada'')]"

definition demo_analysis :: json where
  "demo_analysis =
     JObj [(''priority_episode'', JBool True),
           (''priority_topics'', JArr [JStr ''AI'']),
           (''topic_flags'', JArr [JObj [(''topic'', JStr ''ai''), (''timestamp_start'', JNum 60)]])]"

definition demo_db :: database where
  "demo_db =
     \<lparr>podcasts = [demo_podcast], episodes = [], topic_flags = [],
      interest_topics = [\<lparr>t_id = 7, t_topic = ''AI'', t_is_active = True\<rparr>],
      user_settings = [\<lparr>s_email = Some ''me@example.org''\<rparr>],
      episode_seq = 0\<rparr>"

definition demo_world :: world where
  "demo_world = \<lparr>db = demo_db, trace = [], outbox = []\<rparr>"

definition demo_env :: env where
  "demo_env =
     \<lparr>db_fault = (\<lambda>n. Accepted),
      rss_parseURL = (\<lambda>n u. Resolves [dated_item, undated_item]),
      audio_download = (\<lambda>n u. Saved),
      whisper = (\<lambda>n. Resolves (Some ''words'')),
      fs_unlink = (\<lambda>n. True),
      claude = (\<lambda>n p. case p of
                  SummaryPrompt a b c d \<Rightarrow> Resolves (Json demo_summary)
                | FlagsPrompt a b c d \<Rightarrow> Resolves (Json demo_analysis)),
      smtp = (\<lambda>n. True),
      clock = (\<lambda>n. 1704200000000 + int n),
      js_Date_parse = (\<lambda>s. if s = ''2024-01-01'' then Some 1704067200000 else None),
      js_Number = decimal_Number\<rparr>"

definition demo_episode :: episode where
  "demo_episode =
     \<lparr>e_id = 0, e_podcast_id = 1, e_title = ''Episode one'', e_description = Some ''about'',
      e_audio_url = Some ''https://example.org/1.mp3'', e_published_at = 1704067200000,
      e_duration_seconds = Some 3723, e_processed = False, e_transcript = None,
      e_ai_summary = None\<rparr>"

definition stored_world :: world where
  "stored_world = demo_world\<lparr>db := demo_db\<lparr>episodes := [demo_episode], episode_seq := 1\<rparr>\<rparr>"

definition silent_episode :: episode where
  "silent_episode = demo_episode\<lparr>e_audio_url := None\<rparr>"

definition recent_episode :: episode where
  "recent_episode =
     \<lparr>e_id = 1, e_podcast_id = 1, e_title = ''Recent'', e_description = None,
      e_audio_url = None, e_published_at = 1704190000000,
      e_duration_seconds = None, e_processed = True, e_transcript = Some ''words'',
      e_ai_summary = Some (Json demo_summary)\<rparr>"

definition older_priority_episode :: episode where
  "older_priority_episode =
     \<lparr>e_id = 2, e_podcast_id = 1, e_title = ''Older'', e_description = None,
      e_audio_url = None, e_published_at = 1704150000000,
      e_duration_seconds = None, e_processed = True, e_transcript = Some ''words'',
      e_ai_summary = Some (Json (JObj [(''priority_episode'', JBool True)]))\<rparr>"

definition future_episode :: episode where
  "future_episode =
     \<lparr>e_id = 3, e_podcast_id = 1, e_title = ''Scheduled'', e_description = None,
      e_audio_url = None, e_published_at = 1704300000000,
      e_duration_seconds = None, e_processed = True, e_transcript = Some ''words'',
      e_ai_summary = None\<rparr>"

definition digest_world :: world where
  "digest_world =
     demo_world\<lparr>db := demo_db\<lparr>episodes := [recent_episode, older_priority_episode, future_episode],
                                 episode_seq := 4\<rparr>\<rparr>"

definition unconfigured_world :: world where
  "unconfigured_world = digest_world\<lparr>db := (db digest_world)\<lparr>user_settings := []\<rparr>\<rparr>"

definition null_summary_row :: digest_row where
  "null_summary_row =
     \<lparr>r_episode = recent_episode\<lparr>e_ai_summary := Some (Json JNull)\<rparr>,
      r_podcasts = Some ''Show'', r_topic_flags = []\<rparr>"

text \<open>
  A database with two active podcasts and a paused one between them; an environment
  whose first feed cannot be fetched; an environment in which every download of audio
  breaks off after the headers; rows whose stored summary is not an object with an
  array of paragraphs.
\<close>

definition idle_podcast :: podcast where
  "idle_podcast =
     \<lparr>p_id = 3, p_name = ''Paused'', p_rss_url = ''https://example.org/paused'',
      p_is_active = False, p_last_checked = None\<rparr>"

definition second_podcast :: podcast where
  "second_podcast =
     \<lparr>p_id = 2, p_name = ''Other show'', p_rss_url = ''https://example.org/other'',
      p_is_active = True, p_last_checked = None\<rparr>"

definition later_item :: feed_item where
  "later_item = dated_item\<lparr>i_title := ''Episode three''\<rparr>"

definition two_feed_world :: world where
  "two_feed_world =
     demo_world\<lparr>db := demo_db\<lparr>podcasts := [demo_podcast, idle_podcast, second_podcast]\<rparr>\<rparr>"

definition flaky_env :: env where
  "flaky_env =
     demo_env\<lparr>rss_parseURL :=
                (\<lambda>n u. if u = ''https://example.org/feed'' then Rejects
                       else Resolves [undated_item])\<rparr>"

definition stalling_env :: env where
  "stalling_env =
     demo_env\<lparr>rss_parseURL := (\<lambda>n u. Resolves [dated_item, later_item]),
              audio_download := (\<lambda>n u. BreaksOff)\<rparr>"

definition loose_paragraphs_row :: digest_row where
  "loose_paragraphs_row =
     \<lparr>r_episode = recent_episode
        \<lparr>e_ai_summary := Some (Json (JObj [(''guest'', JStr ''Ada''),
                                         (''summary_paragraphs'', JStr ''One paragraph.'')]))\<rparr>,
      r_podcasts = Some ''Show'', r_topic_flags = []\<rparr>"

definition good_row :: digest_row where
  "good_row = \<lparr>r_episode = recent_episode, r_podcasts = Some ''Show'', r_topic_flags = []\<rparr>"

definition null_summary_world :: world where
  "null_summary_world =
     demo_world\<lparr>db := demo_db
       \<lparr>episodes := [recent_episode\<lparr>e_ai_summary := Some (Json JNull)\<rparr>,
                     older_priority_episode, future_episode],
        episode_seq := 4\<rparr>\<rparr>"

section \<open>Properties\<close>

subsection \<open>Requests, traces and what each function leaves unchanged\<close>

lemma request_simps [simp]:
  "trace (request e w) = trace w @ [e]"
  "db (request e w) = db w"
  "outbox (request e w) = outbox w"
  "calls (request e w) = Suc (calls w)"
  by (simp_all add: request_def calls_def)

lemma calls_keeps [simp]:
  "calls (w\<lparr>db := d\<rparr>) = calls w"
  "calls (w\<lparr>outbox := ms\<rparr>) = calls w"
  by (simp_all add: calls_def)

lemma catch_log_simps [simp]:
  "fst (catch_log r) = (if fst r = Inl NeverSettles then Inl NeverSettles else Inr ())"
  "snd (catch_log r) = snd r"
  by (auto simp: catch_log_def split: prod.splits sum.splits)

lemma issued_append [simp]: "trace w' = trace w @ es \<Longrightarrow> issued w w' = es"
  by (simp add: issued_def)

lemma transcribeAudio_trace:
  "\<exists>es. trace (snd (transcribeAudio env u w)) = trace w @ es
      \<and> es \<in> {[], [AudioDownload (the u)], [AudioDownload (the u), WhisperCall],
               [AudioDownload (the u), WhisperCall, FsUnlink]}
      \<and> (has_transcript (transcribeAudio env u w)
           \<longrightarrow> es = [AudioDownload (the u), WhisperCall, FsUnlink])"
  by (auto simp: transcribeAudio_def has_transcript_def Let_def truthy_str_def
      split: outcome.splits download.splits)

lemma transcribeAudio_keeps [simp]:
  "db (snd (transcribeAudio env u w)) = db w"
  "outbox (snd (transcribeAudio env u w)) = outbox w"
  by (auto simp: transcribeAudio_def Let_def split: outcome.splits download.splits)

lemma transcribeAudio_result:
  "fst (transcribeAudio env u w) = Inl e \<Longrightarrow> e = NeverSettles"
  by (auto simp: transcribeAudio_def Let_def split: outcome.splits download.splits if_splits)

lemma generateEnhancedSummary_simps [simp]:
  "trace (snd (generateEnhancedSummary env ep t w)) = trace w @ [ClaudeSummary (e_id ep)]"
  "db (snd (generateEnhancedSummary env ep t w)) = db w"
  "outbox (snd (generateEnhancedSummary env ep t w)) = outbox w"
  by (auto simp: generateEnhancedSummary_def Let_def split: outcome.splits)

lemma flagInterestTopics_trace:
  "\<exists>es. trace (snd (flagInterestTopics env ep t w)) = trace w @ DbSelectTopics # es
      \<and> es \<in> {[], [ClaudeFlags (e_id ep)], [ClaudeFlags (e_id ep), DbUpdatePriority (e_id ep)]}"
  by (auto simp: flagInterestTopics_def flagInterestTopics_try_def Let_def
           split: outcome.splits fault.splits sum.splits)

lemma flagInterestTopics_keeps [simp]:
  "outbox (snd (flagInterestTopics env ep t w)) = outbox w"
  "podcasts (db (snd (flagInterestTopics env ep t w))) = podcasts (db w)"
  by (auto simp: flagInterestTopics_def flagInterestTopics_try_def Let_def update_episodes_def
           split: outcome.splits fault.splits sum.splits)

lemma processEpisodeAI_no_transcript:
  assumes "\<not> has_transcript (transcribeAudio env (e_audio_url ep) w)"
  shows "snd (processEpisodeAI env ep w) = snd (transcribeAudio env (e_audio_url ep) w)"
proof (cases "transcribeAudio env (e_audio_url ep) w")
  case (Pair r w1)
  with assms show ?thesis
    by (cases r) (simp_all add: processEpisodeAI_def processEpisodeAI_try_def has_transcript_def)
qed

lemma processEpisodeAI_result:
  "fst (processEpisodeAI env ep w) =
     (if fst (transcribeAudio env (e_audio_url ep) w) = Inl NeverSettles
      then Inl NeverSettles else Inr ())"
proof (cases "transcribeAudio env (e_audio_url ep) w")
  case (Pair r w1)
  show ?thesis
  proof (cases r)
    case (Inl e)
    with Pair transcribeAudio_result [of env "e_audio_url ep" w e] show ?thesis
      by (simp add: processEpisodeAI_def processEpisodeAI_try_def)
  next
    case (Inr t)
    with Pair show ?thesis
      by (auto simp: processEpisodeAI_def processEpisodeAI_try_def Let_def
          split: prod.splits fault.splits)
  qed
qed

lemma processEpisodeAI_shape:
  "\<exists>es1 es3 es5.
      trace (snd (processEpisodeAI env ep w)) =
        trace w @ es1 @
          (if has_transcript (transcribeAudio env (e_audio_url ep) w)
           then ClaudeSummary (e_id ep) # DbSelectTopics # es3 @ DbUpdateEpisode (e_id ep) # es5
           else [])
      \<and> es1 \<in> {[], [AudioDownload (the (e_audio_url ep))],
                [AudioDownload (the (e_audio_url ep)), WhisperCall],
                [AudioDownload (the (e_audio_url ep)), WhisperCall, FsUnlink]}
      \<and> (has_transcript (transcribeAudio env (e_audio_url ep) w)
            \<longrightarrow> es1 = [AudioDownload (the (e_audio_url ep)), WhisperCall, FsUnlink])
      \<and> es3 \<in> {[], [ClaudeFlags (e_id ep)], [ClaudeFlags (e_id ep), DbUpdatePriority (e_id ep)]}
      \<and> (es5 = [] \<or> (\<exists>fs. es5 = [DbInsertFlags fs]))"
proof -
  obtain r w1 where T: "transcribeAudio env (e_audio_url ep) w = (r, w1)"
    by force
  from transcribeAudio_trace [of env "e_audio_url ep" w] T
  obtain es1 where E1: "trace w1 = trace w @ es1"
      "es1 \<in> {[], [AudioDownload (the (e_audio_url ep))],
                [AudioDownload (the (e_audio_url ep)), WhisperCall],
                [AudioDownload (the (e_audio_url ep)), WhisperCall, FsUnlink]}"
      "has_transcript (r, w1)
         \<longrightarrow> es1 = [AudioDownload (the (e_audio_url ep)), WhisperCall, FsUnlink]"
    by auto
  show ?thesis
  proof (cases "has_transcript (r, w1)")
    case False
    then have "trace (snd (processEpisodeAI env ep w)) = trace w @ es1 @ []"
      using processEpisodeAI_no_transcript [of env ep w] T E1(1) by simp
    with False T E1(2) show ?thesis
      by (intro exI [of _ es1] exI [of _ "[]"]) simp
  next
    case True
    then obtain tr where R: "r = Inr tr" "truthy_str tr"
      by (cases r) (simp_all add: has_transcript_def)
    obtain s w2 where S: "generateEnhancedSummary env ep (the tr) w1 = (s, w2)"
      by force
    then have E2: "trace w2 = trace w1 @ [ClaudeSummary (e_id ep)]"
      using generateEnhancedSummary_simps(1) [of env ep "the tr" w1] by simp
    obtain fl w3 where F: "flagInterestTopics env ep (the tr) w2 = (fl, w3)"
      by force
    from flagInterestTopics_trace [of env ep "the tr" w2] F
    obtain es3 where E3: "trace w3 = trace w2 @ DbSelectTopics # es3"
      "es3 \<in> {[], [ClaudeFlags (e_id ep)], [ClaudeFlags (e_id ep), DbUpdatePriority (e_id ep)]}"
      by auto
    have "\<exists>es5. trace (snd (processEpisodeAI env ep w)) =
            trace w3 @ DbUpdateEpisode (e_id ep) # es5
            \<and> (es5 = [] \<or> (\<exists>fs. es5 = [DbInsertFlags fs]))"
      using T R S F
      by (auto simp: processEpisodeAI_def processEpisodeAI_try_def Let_def split: fault.splits)
    then obtain es5 where E5:
      "trace (snd (processEpisodeAI env ep w)) = trace w3 @ DbUpdateEpisode (e_id ep) # es5"
      "es5 = [] \<or> (\<exists>fs. es5 = [DbInsertFlags fs])"
      by blast
    have "trace (snd (processEpisodeAI env ep w)) =
            trace w @ es1 @ ClaudeSummary (e_id ep) # DbSelectTopics # es3 @
              DbUpdateEpisode (e_id ep) # es5"
      using E1(1) E2 E3(1) E5(1) by simp
    with True T E1 E3(2) E5(2) show ?thesis
      by (intro exI [of _ es1] exI [of _ es3] exI [of _ es5]) simp
  qed
qed

lemma processEpisodeAI_ai_events:
  "\<exists>es. trace (snd (processEpisodeAI env ep w)) = trace w @ es \<and> list_all ai_event es
        \<and> distinct es"
proof -
  from processEpisodeAI_shape [of env ep w] obtain es1 es3 es5 where
    "trace (snd (processEpisodeAI env ep w)) =
        trace w @ es1 @
          (if has_transcript (transcribeAudio env (e_audio_url ep) w)
           then ClaudeSummary (e_id ep) # DbSelectTopics # es3 @ DbUpdateEpisode (e_id ep) # es5
           else [])"
    "es1 \<in> {[], [AudioDownload (the (e_audio_url ep))],
                [AudioDownload (the (e_audio_url ep)), WhisperCall],
                [AudioDownload (the (e_audio_url ep)), WhisperCall, FsUnlink]}"
    "es3 \<in> {[], [ClaudeFlags (e_id ep)], [ClaudeFlags (e_id ep), DbUpdatePriority (e_id ep)]}"
    "es5 = [] \<or> (\<exists>fs. es5 = [DbInsertFlags fs])"
    by blast
  then show ?thesis
    by (intro exI [of _ "es1 @
          (if has_transcript (transcribeAudio env (e_audio_url ep) w)
           then ClaudeSummary (e_id ep) # DbSelectTopics # es3 @ DbUpdateEpisode (e_id ep) # es5
           else [])"]) auto
qed

lemma update_keeps [simp]:
  "podcasts (update_episodes i f d) = podcasts d"
  "podcasts (insert_flags fs d) = podcasts d"
  "podcasts (snd (insert_episode x d)) = podcasts d"
  by (simp_all add: update_episodes_def insert_flags_def insert_episode_def Let_def)

lemma processEpisodeAI_keeps:
  "podcasts (db (snd (processEpisodeAI env ep w))) = podcasts (db w)"
  "outbox (snd (processEpisodeAI env ep w)) = outbox w"
proof -
  obtain r w1 where T: "transcribeAudio env (e_audio_url ep) w = (r, w1)"
    by force
  have K1: "db w1 = db w" "outbox w1 = outbox w"
    by (metis T snd_conv transcribeAudio_keeps(1)) (metis T snd_conv transcribeAudio_keeps(2))
  have "podcasts (db (snd (processEpisodeAI env ep w))) = podcasts (db w)
        \<and> outbox (snd (processEpisodeAI env ep w)) = outbox w"
  proof (cases "has_transcript (r, w1)")
    case False
    then show ?thesis
      using processEpisodeAI_no_transcript [of env ep w] T K1 by simp
  next
    case True
    then obtain tr where R: "r = Inr tr" "truthy_str tr"
      by (cases r) (simp_all add: has_transcript_def)
    obtain s w2 where S: "generateEnhancedSummary env ep (the tr) w1 = (s, w2)"
      by force
    have K2: "db w2 = db w1" "outbox w2 = outbox w1"
      by (metis S snd_conv generateEnhancedSummary_simps(2))
         (metis S snd_conv generateEnhancedSummary_simps(3))
    obtain fl w3 where F: "flagInterestTopics env ep (the tr) w2 = (fl, w3)"
      by force
    have K3: "podcasts (db w3) = podcasts (db w2)" "outbox w3 = outbox w2"
      by (metis F snd_conv flagInterestTopics_keeps(2))
         (metis F snd_conv flagInterestTopics_keeps(1))
    show ?thesis
      using T R S F K1 K2 K3
      by (auto simp: processEpisodeAI_def processEpisodeAI_try_def Let_def split: fault.splits)
  qed
  then show "podcasts (db (snd (processEpisodeAI env ep w))) = podcasts (db w)"
    "outbox (snd (processEpisodeAI env ep w)) = outbox w"
    by simp_all
qed

lemma catch_log_cases:
  "fst (catch_log r) = Inr () \<or> fst (catch_log r) = Inl NeverSettles"
  by simp

lemma processNewEpisode_result:
  "fst (processNewEpisode env p it w) = Inr ()
   \<or> fst (processNewEpisode env p it w) = Inl NeverSettles"
  unfolding processNewEpisode_def by (rule catch_log_cases)

lemma processNewEpisode_shape:
  "\<exists>es. trace (snd (processNewEpisode env p it w)) =
           trace w @ (case episodeData env p it of Inl e \<Rightarrow> [] | Inr d \<Rightarrow> DbInsertEpisode d # es)
        \<and> list_all ai_event es"
proof (cases "episodeData env p it")
  case (Inl e)
  then show ?thesis
    by (intro exI [of _ "[]"]) (simp add: processNewEpisode_def processNewEpisode_try_def)
next
  case (Inr d)
  show ?thesis
  proof (cases "db_fault env (calls w) = Accepted")
    case False
    with Inr have "trace (snd (processNewEpisode env p it w)) = trace w @ [DbInsertEpisode d]"
      by (simp add: processNewEpisode_def processNewEpisode_try_def Let_def split: fault.splits)
    with Inr show ?thesis by (intro exI [of _ "[]"]) simp
  next
    case True
    obtain row dbs where I: "insert_episode d (db w) = (row, dbs)"
      by force
    let ?w1 = "(request (DbInsertEpisode d) w)\<lparr>db := dbs\<rparr>"
    from processEpisodeAI_ai_events [of env row ?w1] obtain es where
      E: "trace (snd (processEpisodeAI env row ?w1)) = trace ?w1 @ es" "list_all ai_event es"
      by blast
    from Inr True I have "snd (processNewEpisode env p it w) = snd (processEpisodeAI env row ?w1)"
      by (simp add: processNewEpisode_def processNewEpisode_try_def Let_def)
    with E Inr show ?thesis by (intro exI [of _ es]) simp
  qed
qed

lemma processNewEpisode_keeps:
  "podcasts (db (snd (processNewEpisode env p it w))) = podcasts (db w)"
  "outbox (snd (processNewEpisode env p it w)) = outbox w"
proof -
  have "podcasts (db (snd (processNewEpisode env p it w))) = podcasts (db w)
        \<and> outbox (snd (processNewEpisode env p it w)) = outbox w"
  proof (cases "episodeData env p it")
    case (Inl e)
    then show ?thesis
      by (simp add: processNewEpisode_def processNewEpisode_try_def)
  next
    case (Inr d)
    obtain row dbs where I: "insert_episode d (db w) = (row, dbs)"
      by force
    then have P: "podcasts dbs = podcasts (db w)"
      by (metis snd_conv update_keeps(3))
    let ?w1 = "(request (DbInsertEpisode d) w)\<lparr>db := dbs\<rparr>"
    from processEpisodeAI_keeps [of env row ?w1] P Inr I show ?thesis
      by (auto simp: processNewEpisode_def processNewEpisode_try_def Let_def split: fault.splits)
  qed
  then show "podcasts (db (snd (processNewEpisode env p it w))) = podcasts (db w)"
            "outbox (snd (processNewEpisode env p it w)) = outbox w"
    by simp_all
qed

lemma inserted_append [simp]: "inserted (xs @ ys) = inserted xs @ inserted ys"
  by (induction xs rule: inserted.induct) simp_all

lemma fetched_append [simp]: "fetched (xs @ ys) = fetched xs @ fetched ys"
  by (induction xs rule: fetched.induct) simp_all

lemma inserted_ai_events [simp]: "list_all ai_event es \<Longrightarrow> inserted es = []"
  by (induction es rule: inserted.induct) simp_all

lemma fetched_feed_events [simp]: "list_all feed_event es \<Longrightarrow> fetched es = []"
  by (induction es rule: fetched.induct) simp_all

lemma ai_event_feed_event: "list_all ai_event es \<Longrightarrow> list_all feed_event es"
  by (induction es) (auto elim: ai_event.elims)

lemma is_newer_episodeData:
  "is_newer env since it \<Longrightarrow> \<exists>d. episodeData env p it = Inr d"
  by (auto simp: is_newer_def episodeData_def split: option.splits)

lemma items_loop_shape:
  "\<exists>es. trace (snd (items_loop env p since items w)) = trace w @ es
        \<and> list_all feed_event es
        \<and> prefix (map Inr (inserted es))
             (map (episodeData env p) (filter (is_newer env since) items))
        \<and> (fst (items_loop env p since items w) = Inr () \<longrightarrow>
             map Inr (inserted es) = map (episodeData env p) (filter (is_newer env since) items))
        \<and> (fst (items_loop env p since items w) = Inr ()
             \<or> fst (items_loop env p since items w) = Inl NeverSettles)
        \<and> podcasts (db (snd (items_loop env p since items w))) = podcasts (db w)
        \<and> outbox (snd (items_loop env p since items w)) = outbox w"
proof (induction items arbitrary: w)
  case Nil
  show ?case by simp
next
  case (Cons it items)
  show ?case
  proof (cases "is_newer env since it")
    case False
    with Cons.IH [of w] show ?thesis by simp
  next
    case True
    then obtain d where D: "episodeData env p it = Inr d"
      using is_newer_episodeData by blast
    obtain r1 w1 where W: "processNewEpisode env p it w = (r1, w1)"
      by force
    from processNewEpisode_shape [of env p it w] D W obtain es1 where
      E1: "trace w1 = trace w @ DbInsertEpisode d # es1" "list_all ai_event es1"
      by auto
    have K1: "podcasts (db w1) = podcasts (db w)" "outbox w1 = outbox w"
      using processNewEpisode_keeps [of env p it w] W by simp_all
    from processNewEpisode_result [of env p it w] W
    consider "r1 = Inl NeverSettles" | "r1 = Inr ()"
      by auto
    then show ?thesis
    proof cases
      case 1
      with True W have L: "items_loop env p since (it # items) w = (Inl NeverSettles, w1)"
        by simp
      show ?thesis
        unfolding L using E1 K1 D True
        by (intro exI [of _ "DbInsertEpisode d # es1"]) (simp add: ai_event_feed_event)
    next
      case 2
      from Cons.IH [of w1] obtain es2 where
        E2: "trace (snd (items_loop env p since items w1)) = trace w1 @ es2"
            "list_all feed_event es2"
            "prefix (map Inr (inserted es2))
               (map (episodeData env p) (filter (is_newer env since) items))"
            "fst (items_loop env p since items w1) = Inr () \<longrightarrow>
               map Inr (inserted es2) = map (episodeData env p) (filter (is_newer env since) items)"
            "fst (items_loop env p since items w1) = Inr ()
               \<or> fst (items_loop env p since items w1) = Inl NeverSettles"
            "podcasts (db (snd (items_loop env p since items w1))) = podcasts (db w1)"
            "outbox (snd (items_loop env p since items w1)) = outbox w1"
        by blast
      have L: "items_loop env p since (it # items) w = items_loop env p since items w1"
        using True W 2 by simp
      show ?thesis
        unfolding L using E1 E2 K1 D True
        by (intro exI [of _ "DbInsertEpisode d # es1 @ es2"])
           (simp add: ai_event_feed_event)
    qed
  qed
qed

lemma processPodcastFeed_result:
  "fst (processPodcastFeed env p w) = Inr ()
   \<or> fst (processPodcastFeed env p w) = Inl NeverSettles"
  unfolding processPodcastFeed_def by (rule catch_log_cases)

lemma podcasts_update_last_checked [simp]:
  "podcasts (update_last_checked i now d) =
     map (\<lambda>q. if p_id q = i then q\<lparr>p_last_checked := Some now\<rparr> else q) (podcasts d)"
  by (simp add: update_last_checked_def)

lemma processPodcastFeed_resolved:
  assumes "rss_parseURL env (calls w) (p_rss_url p) = Resolves items"
    and "fst (processPodcastFeed env p w) = Inr ()"
  shows "\<exists>es. trace (snd (processPodcastFeed env p w)) =
             trace w @ RssFetch (p_rss_url p) # es @
               [DbUpdateLastChecked (p_id p) (clock env (Suc (calls w + length es)))]
          \<and> list_all feed_event es
          \<and> map Inr (inserted es) =
              map (episodeData env p) (filter (is_newer env (lastChecked p)) items)
          \<and> podcasts (db (snd (processPodcastFeed env p w))) =
              (if db_fault env (Suc (calls w + length es)) = Accepted
               then map (\<lambda>q. if p_id q = p_id p
                              then q\<lparr>p_last_checked := Some (clock env (Suc (calls w + length es)))\<rparr>
                              else q) (podcasts (db w))
               else podcasts (db w))"
proof -
  let ?w1 = "request (RssFetch (p_rss_url p)) w"
  obtain r2 w2 where L: "items_loop env p (lastChecked p) items ?w1 = (r2, w2)"
    by force
  have R: "r2 = Inr ()"
  proof (rule ccontr)
    assume "r2 \<noteq> Inr ()"
    with items_loop_shape [of env p "lastChecked p" items ?w1] L have "r2 = Inl NeverSettles"
      by auto
    with assms(1) L have "fst (processPodcastFeed env p w) = Inl NeverSettles"
      by (simp add: processPodcastFeed_def processPodcastFeed_try_def Let_def)
    with assms(2) show False by simp
  qed
  from items_loop_shape [of env p "lastChecked p" items ?w1] L R obtain es where
    E: "trace w2 = trace ?w1 @ es" "list_all feed_event es"
       "map Inr (inserted es) = map (episodeData env p) (filter (is_newer env (lastChecked p)) items)"
       "podcasts (db w2) = podcasts (db ?w1)"
    by auto
  have C: "calls w2 = Suc (calls w + length es)"
    using E(1) by (simp add: calls_def)
  show ?thesis
    using assms(1) L R E C
    by (intro exI [of _ es])
       (auto simp: processPodcastFeed_def processPodcastFeed_try_def Let_def split: fault.splits)
qed

lemma processPodcastFeed_shape:
  "\<exists>es. trace (snd (processPodcastFeed env p w)) = trace w @ RssFetch (p_rss_url p) # es
        \<and> list_all feed_event es
        \<and> outbox (snd (processPodcastFeed env p w)) = outbox w
        \<and> (\<forall>items. rss_parseURL env (calls w) (p_rss_url p) = Resolves items \<longrightarrow>
              prefix (map Inr (inserted es))
                (map (episodeData env p) (filter (is_newer env (lastChecked p)) items)))"
proof (cases "rss_parseURL env (calls w) (p_rss_url p)")
  case Rejects
  then show ?thesis
    by (intro exI [of _ "[]"])
       (simp add: processPodcastFeed_def processPodcastFeed_try_def Let_def)
next
  case (Resolves items)
  let ?w1 = "request (RssFetch (p_rss_url p)) w"
  obtain r2 w2 where L: "items_loop env p (lastChecked p) items ?w1 = (r2, w2)"
    by force
  from items_loop_shape [of env p "lastChecked p" items ?w1] L obtain es where
    E: "trace w2 = trace ?w1 @ es" "list_all feed_event es"
       "prefix (map Inr (inserted es))
          (map (episodeData env p) (filter (is_newer env (lastChecked p)) items))"
       "r2 = Inr () \<or> r2 = Inl NeverSettles"
       "outbox w2 = outbox ?w1"
    by auto
  from E(4) show ?thesis
  proof
    assume "r2 = Inl NeverSettles"
    with Resolves L E show ?thesis
      by (intro exI [of _ es])
         (simp add: processPodcastFeed_def processPodcastFeed_try_def Let_def)
  next
    assume "r2 = Inr ()"
    with Resolves L E show ?thesis
      by (intro exI [of _ "es @ [DbUpdateLastChecked (p_id p) (clock env (calls w2))]"])
         (auto simp: processPodcastFeed_def processPodcastFeed_try_def Let_def
          split: fault.splits)
  qed
qed

subsection \<open>Calls that return and calls that do not\<close>

lemma feeds_loop_result:
  "fst (feeds_loop env ps w) = Inr () \<or> fst (feeds_loop env ps w) = Inl NeverSettles"
proof (induction ps arbitrary: w)
  case Nil
  show ?case by simp
next
  case (Cons p ps)
  obtain r1 w1 where W: "processPodcastFeed env p w = (r1, w1)"
    by force
  with processPodcastFeed_result [of env p w] Cons.IH [of "request (Sleep 2000) w1"]
  show ?case by auto
qed

lemma feeds_loop_outbox [simp]: "outbox (snd (feeds_loop env ps w)) = outbox w"
proof (induction ps arbitrary: w)
  case Nil
  show ?case by simp
next
  case (Cons p ps)
  obtain r1 w1 where W: "processPodcastFeed env p w = (r1, w1)"
    by force
  with processPodcastFeed_shape [of env p w] have "outbox w1 = outbox w"
    by auto
  with W Cons.IH [of "request (Sleep 2000) w1"] show ?case
    by (cases r1) simp_all
qed

lemma feeds_loop_returns:
  "fst (feeds_loop env ps w) = Inr () \<Longrightarrow>
   \<exists>segs. length segs = length ps
      \<and> trace (snd (feeds_loop env ps w)) =
          trace w @ concat (map2 (\<lambda>p seg. RssFetch (p_rss_url p) # seg @ [Sleep 2000]) ps segs)
      \<and> list_all (list_all feed_event) segs"
proof (induction ps arbitrary: w)
  case Nil
  show ?case by simp
next
  case (Cons p ps)
  obtain r1 w1 where W: "processPodcastFeed env p w = (r1, w1)"
    by force
  from Cons.prems W have R: "r1 = Inr ()"
    by (cases r1) simp_all
  from processPodcastFeed_shape [of env p w] W obtain seg where
    S: "trace w1 = trace w @ RssFetch (p_rss_url p) # seg" "list_all feed_event seg"
    by auto
  let ?w2 = "request (Sleep 2000) w1"
  have L: "feeds_loop env (p # ps) w = feeds_loop env ps ?w2"
    using W R by simp
  with Cons.prems have "fst (feeds_loop env ps ?w2) = Inr ()"
    by simp
  from Cons.IH [OF this] obtain segs where
    I: "length segs = length ps"
       "trace (snd (feeds_loop env ps ?w2)) =
            trace ?w2 @ concat (map2 (\<lambda>p seg. RssFetch (p_rss_url p) # seg @ [Sleep 2000]) ps segs)"
       "list_all (list_all feed_event) segs"
    by blast
  show ?case
    unfolding L using I S
    by (intro exI [of _ "seg # segs"]) simp
qed

lemma feeds_loop_hangs:
  "fst (feeds_loop env ps w) \<noteq> Inr () \<Longrightarrow>
   \<exists>k segs seg. k < length ps \<and> length segs = k
      \<and> trace (snd (feeds_loop env ps w)) =
          trace w
          @ concat (map2 (\<lambda>p seg. RssFetch (p_rss_url p) # seg @ [Sleep 2000]) (take k ps) segs)
          @ RssFetch (p_rss_url (ps ! k)) # seg
      \<and> list_all (list_all feed_event) segs
      \<and> list_all feed_event seg"
proof (induction ps arbitrary: w)
  case Nil
  then show ?case by simp
next
  case (Cons p ps)
  obtain r1 w1 where W: "processPodcastFeed env p w = (r1, w1)"
    by force
  from processPodcastFeed_shape [of env p w] W obtain seg where
    S: "trace w1 = trace w @ RssFetch (p_rss_url p) # seg" "list_all feed_event seg"
    by auto
  show ?case
  proof (cases r1)
    case (Inl e)
    with W have L: "feeds_loop env (p # ps) w = (Inl e, w1)"
      by simp
    show ?thesis
      unfolding L using S
      by (intro exI [of _ 0] exI [of _ "[]"] exI [of _ seg]) simp
  next
    case (Inr u)
    let ?w2 = "request (Sleep 2000) w1"
    have L: "feeds_loop env (p # ps) w = feeds_loop env ps ?w2"
      using W Inr by simp
    with Cons.prems have "fst (feeds_loop env ps ?w2) \<noteq> Inr ()"
      by simp
    from Cons.IH [OF this] obtain k segs seg' where
      I: "k < length ps" "length segs = k"
         "trace (snd (feeds_loop env ps ?w2)) =
            trace ?w2
            @ concat (map2 (\<lambda>p seg. RssFetch (p_rss_url p) # seg @ [Sleep 2000]) (take k ps) segs)
            @ RssFetch (p_rss_url (ps ! k)) # seg'"
         "list_all (list_all feed_event) segs" "list_all feed_event seg'"
      by blast
    show ?thesis
      unfolding L using I S
      by (intro exI [of _ "Suc k"] exI [of _ "seg # segs"] exI [of _ seg']) simp
  qed
qed

lemma fetched_segments:
  "length segs = length ps \<Longrightarrow> list_all (list_all feed_event) segs \<Longrightarrow>
   fetched (concat (map2 (\<lambda>p seg. RssFetch (p_rss_url p) # seg @ [Sleep 2000]) ps segs))
     = map p_rss_url ps"
  by (induction segs ps rule: list_induct2) simp_all

lemma checkAllFeeds_result:
  "fst (checkAllFeeds env w) = Inr () \<or> fst (checkAllFeeds env w) = Inl NeverSettles"
  unfolding checkAllFeeds_def by (rule catch_log_cases)

lemma checkAllFeeds_accepted:
  assumes "db_fault env (calls w) = Accepted"
  shows "checkAllFeeds env w =
     feeds_loop env (filter p_is_active (podcasts (db w))) (request DbSelectPodcasts w)"
proof -
  let ?r = "feeds_loop env (filter p_is_active (podcasts (db w))) (request DbSelectPodcasts w)"
  have T: "checkAllFeeds_try env w = ?r"
    using assms by (simp add: checkAllFeeds_try_def Let_def)
  from feeds_loop_result [of env "filter p_is_active (podcasts (db w))" "request DbSelectPodcasts w"]
  have "catch_log ?r = ?r"
    by (cases ?r) (auto simp: catch_log_def)
  with T show ?thesis by (simp add: checkAllFeeds_def)
qed

text \<open>When no download breaks off, every function returns.\<close>

lemma settles_transcribeAudio:
  "settles env \<Longrightarrow> \<exists>t. fst (transcribeAudio env u w) = Inr t"
  by (cases "audio_download env (calls w) (the u)")
     (auto simp: settles_def transcribeAudio_def Let_def split: outcome.splits)

lemma settles_processEpisodeAI:
  "settles env \<Longrightarrow> fst (processEpisodeAI env ep w) = Inr ()"
  using settles_transcribeAudio [of env "e_audio_url ep" w]
  by (auto simp: processEpisodeAI_result)

lemma episodeData_error: "episodeData env p it = Inl e \<Longrightarrow> e = RangeError"
  by (auto simp: episodeData_def split: option.splits)

lemma settles_processNewEpisode:
  assumes "settles env"
  shows "fst (processNewEpisode env p it w) = Inr ()"
proof -
  have "fst (processNewEpisode_try env p it w) \<noteq> Inl NeverSettles"
  proof (cases "episodeData env p it")
    case (Inl e)
    with episodeData_error [of env p it e] show ?thesis
      by (simp add: processNewEpisode_try_def)
  next
    case (Inr d)
    obtain row dbs where I: "insert_episode d (db w) = (row, dbs)"
      by force
    from Inr I settles_processEpisodeAI [OF assms] show ?thesis
      by (simp add: processNewEpisode_try_def Let_def split: fault.splits)
  qed
  then show ?thesis by (simp add: processNewEpisode_def)
qed

lemma settles_items_loop:
  "settles env \<Longrightarrow> fst (items_loop env p since items w) = Inr ()"
proof (induction items arbitrary: w)
  case Nil
  show ?case by simp
next
  case (Cons it items)
  obtain r1 w1 where W: "processNewEpisode env p it w = (r1, w1)"
    by force
  with settles_processNewEpisode [OF Cons.prems, of p it w] have "r1 = Inr ()"
    by simp
  with W Cons.IH [OF Cons.prems] show ?case by simp
qed

lemma settles_processPodcastFeed:
  assumes "settles env"
  shows "fst (processPodcastFeed env p w) = Inr ()"
proof -
  have "fst (processPodcastFeed_try env p w) \<noteq> Inl NeverSettles"
  proof (cases "rss_parseURL env (calls w) (p_rss_url p)")
    case Rejects
    then show ?thesis
      by (simp add: processPodcastFeed_try_def Let_def)
  next
    case (Resolves items)
    let ?w1 = "request (RssFetch (p_rss_url p)) w"
    obtain w2 where "items_loop env p (lastChecked p) items ?w1 = (Inr (), w2)"
      by (metis settles_items_loop [OF assms] prod.collapse)
    with Resolves show ?thesis
      by (simp add: processPodcastFeed_try_def Let_def split: fault.splits)
  qed
  then show ?thesis by (simp add: processPodcastFeed_def)
qed

lemma settles_feeds_loop:
  "settles env \<Longrightarrow> fst (feeds_loop env ps w) = Inr ()"
proof (induction ps arbitrary: w)
  case Nil
  show ?case by simp
next
  case (Cons p ps)
  obtain r1 w1 where W: "processPodcastFeed env p w = (r1, w1)"
    by force
  with settles_processPodcastFeed [OF Cons.prems, of p w] have "r1 = Inr ()"
    by simp
  with W Cons.IH [OF Cons.prems] show ?case by simp
qed

lemma settles_checkAllFeeds:
  "settles env \<Longrightarrow> fst (checkAllFeeds env w) = Inr ()"
  using settles_feeds_loop [of env]
  by (auto simp: checkAllFeeds_def checkAllFeeds_try_def Let_def split: fault.splits)

lemma is_newer_iff:
  "is_newer env (lastChecked p) it \<longleftrightarrow>
     (\<exists>t. publishDate env it = Some t
        \<and> (case p_last_checked p of None \<Rightarrow> 0 | Some c \<Rightarrow> c) < t)"
  by (auto simp: is_newer_def lastChecked_def split: option.splits)

lemma settling_runs_go_on:
  assumes "settles env"
  shows "fst (checkAllFeeds env w) = Inr ()"
    and "fst (processPodcastFeed env p w) = Inr ()"
    and "fst (processNewEpisode env p it w) = Inr ()"
    and "fst (processEpisodeAI env ep w) = Inr ()"
    and "db_fault env (calls w) = Accepted \<Longrightarrow>
        fetched (issued w (snd (checkAllFeeds env w)))
          = map p_rss_url (filter p_is_active (podcasts (db w)))"
    and "rss_parseURL env (calls w) (p_rss_url p) = Resolves items \<Longrightarrow>
        map Inr (inserted (issued w (snd (processPodcastFeed env p w))))
          = map (episodeData env p) (filter (is_newer env (lastChecked p)) items)"
    and "distinct (issued w (snd (processEpisodeAI env ep w)))"
proof -
  show C: "fst (checkAllFeeds env w) = Inr ()"
    by (rule settles_checkAllFeeds [OF assms])
  show P: "fst (processPodcastFeed env p w) = Inr ()"
    by (rule settles_processPodcastFeed [OF assms])
  show "fst (processNewEpisode env p it w) = Inr ()"
    by (rule settles_processNewEpisode [OF assms])
  show "fst (processEpisodeAI env ep w) = Inr ()"
    by (rule settles_processEpisodeAI [OF assms])
  show "fetched (issued w (snd (checkAllFeeds env w)))
          = map p_rss_url (filter p_is_active (podcasts (db w)))"
    if A: "db_fault env (calls w) = Accepted"
  proof -
    let ?ps = "filter p_is_active (podcasts (db w))"
    let ?w1 = "request DbSelectPodcasts w"
    have "fst (feeds_loop env ?ps ?w1) = Inr ()"
      using C checkAllFeeds_accepted [OF A] by simp
    from feeds_loop_returns [OF this] obtain segs where
      S: "length segs = length ?ps"
         "trace (snd (feeds_loop env ?ps ?w1)) =
            trace ?w1 @ concat (map2 (\<lambda>p seg. RssFetch (p_rss_url p) # seg @ [Sleep 2000]) ?ps segs)"
         "list_all (list_all feed_event) segs"
      by blast
    have "issued w (snd (checkAllFeeds env w)) =
            DbSelectPodcasts #
            concat (map2 (\<lambda>p seg. RssFetch (p_rss_url p) # seg @ [Sleep 2000]) ?ps segs)"
      using S(2) by (intro issued_append) (simp add: checkAllFeeds_accepted [OF A])
    then show ?thesis
      using fetched_segments [OF S(1) S(3)] by simp
  qed
  show "map Inr (inserted (issued w (snd (processPodcastFeed env p w))))
          = map (episodeData env p) (filter (is_newer env (lastChecked p)) items)"
    if R: "rss_parseURL env (calls w) (p_rss_url p) = Resolves items"
  proof -
    from processPodcastFeed_resolved [OF R P] obtain es where
      E: "trace (snd (processPodcastFeed env p w)) = trace w @ RssFetch (p_rss_url p) # es @
               [DbUpdateLastChecked (p_id p) (clock env (Suc (calls w + length es)))]"
         "map Inr (inserted es) =
              map (episodeData env p) (filter (is_newer env (lastChecked p)) items)"
      by blast
    have "issued w (snd (processPodcastFeed env p w)) = RssFetch (p_rss_url p) # es @
               [DbUpdateLastChecked (p_id p) (clock env (Suc (calls w + length es)))]"
      using E(1) by (rule issued_append)
    then show ?thesis using E(2) by simp
  qed
  show "distinct (issued w (snd (processEpisodeAI env ep w)))"
  proof -
    from processEpisodeAI_ai_events [of env ep w] obtain es where
      "trace (snd (processEpisodeAI env ep w)) = trace w @ es" "distinct es"
      by blast
    then show ?thesis by (simp add: issued_append)
  qed
qed

subsection \<open>Rendering and sending the digest\<close>

lemma render_all_Inr:
  "render_all b rows = Inr bs \<Longrightarrow> bs = map (\<lambda>r. EpisodeBlock r b) rows \<and> list_all renders rows"
  by (induction rows arbitrary: bs)
     (auto simp: generateEpisodeHTML_def split: sum.splits if_splits)

lemma render_all_renders:
  "list_all renders rows \<Longrightarrow> render_all b rows = Inr (map (\<lambda>r. EpisodeBlock r b) rows)"
  by (induction rows) (auto simp: generateEpisodeHTML_def)

lemma regular_filter:
  "filter (\<lambda>ep. ep \<notin> set (filter is_priority rows)) rows = filter (\<lambda>r. \<not> is_priority r) rows"
  by (rule filter_cong) auto

lemma blocks_append [simp]: "blocks (xs @ ys) = blocks xs @ blocks ys"
  by (induction xs rule: blocks.induct) simp_all

lemma blocks_map [simp]: "blocks (map (\<lambda>r. EpisodeBlock r b) rows) = map (\<lambda>r. (r, b)) rows"
  by (induction rows) simp_all

lemma blocks_digest_markup:
  "blocks (digest_markup rows) =
     map (\<lambda>r. (r, True)) (filter is_priority rows)
     @ map (\<lambda>r. (r, False)) (filter (\<lambda>r. \<not> is_priority r) rows)"
  by (simp add: digest_markup_def)

lemma blocks_once: "mset (map fst (blocks (digest_markup rows))) = mset rows"
  by (simp add: blocks_digest_markup comp_def)

lemma generateDigestHTML_renders:
  assumes "list_all renders rows"
  shows "generateDigestHTML rows = Inr (digest_markup rows)"
proof -
  have P: "render_all True (filter is_priority rows)
           = Inr (map (\<lambda>r. EpisodeBlock r True) (filter is_priority rows))"
    using assms by (intro render_all_renders) (simp add: list_all_iff)
  have R: "render_all False (filter (\<lambda>r. \<not> is_priority r) rows)
           = Inr (map (\<lambda>r. EpisodeBlock r False) (filter (\<lambda>r. \<not> is_priority r) rows))"
    using assms by (intro render_all_renders) (simp add: list_all_iff)
  show ?thesis
    unfolding generateDigestHTML_def Let_def regular_filter digest_markup_def P R
    by simp
qed

lemma generateDigestHTML_Inr:
  assumes "generateDigestHTML rows = Inr html"
  shows "html = digest_markup rows"
proof -
  have P: "list_all renders (filter is_priority rows)"
  proof (cases "render_all True (filter is_priority rows)")
    case (Inl e)
    have "filter is_priority rows = []"
    proof (rule ccontr)
      assume "filter is_priority rows \<noteq> []"
      then have "generateDigestHTML rows = Inl e"
        unfolding generateDigestHTML_def Let_def Inl by simp
      with assms show False by simp
    qed
    then show ?thesis by simp
  next
    case (Inr bs)
    then show ?thesis using render_all_Inr by blast
  qed
  have R: "list_all renders (filter (\<lambda>r. \<not> is_priority r) rows)"
  proof (cases "render_all False (filter (\<lambda>r. \<not> is_priority r) rows)")
    case (Inl e)
    have "filter (\<lambda>r. \<not> is_priority r) rows = []"
    proof (rule ccontr)
      assume "filter (\<lambda>r. \<not> is_priority r) rows \<noteq> []"
      then have "generateDigestHTML rows = Inl e"
        unfolding generateDigestHTML_def Let_def regular_filter Inl
          render_all_renders [OF P, of True]
        by simp
      with assms show False by simp
    qed
    then show ?thesis by simp
  next
    case (Inr bs)
    then show ?thesis using render_all_Inr by blast
  qed
  have "list_all renders rows"
    unfolding list_all_iff
  proof
    fix r assume "r \<in> set rows"
    then have "r \<in> set (filter is_priority rows) \<or> r \<in> set (filter (\<lambda>r. \<not> is_priority r) rows)"
      by simp
    with P R show "renders r"
      unfolding list_all_iff by blast
  qed
  from generateDigestHTML_renders [OF this] have "generateDigestHTML rows = Inr (digest_markup rows)" .
  with assms have "Inr html = (Inr (digest_markup rows) :: error + fragment list)"
    by (rule subst)
  then show ?thesis by (rule Inr_inject)
qed

lemma is_priority_iff:
  "is_priority r \<longleftrightarrow>
     (\<exists>kvs v. e_ai_summary (r_episode r) = Some (Json (JObj kvs))
        \<and> map_of kvs ''priority_episode'' = Some v \<and> truthy v)"
proof (cases "e_ai_summary (r_episode r)")
  case None
  then show ?thesis by (simp add: is_priority_def or_empty_object_def truthy_opt_def)
next
  case (Some x)
  show ?thesis
  proof (cases x)
    case (Raw s)
    with Some show ?thesis
      by (simp add: is_priority_def or_empty_object_def truthy_opt_def)
  next
    case (Json v)
    with Some show ?thesis
      by (cases v) (auto simp: is_priority_def or_empty_object_def truthy_opt_def split: option.splits)
  qed
qed

lemma unparsable_summary:
  assumes "e_ai_summary (r_episode r) = None \<or> (\<exists>s. e_ai_summary (r_episode r) = Some (Raw s))"
  shows "JSON_parse (or_empty_object (e_ai_summary (r_episode r))) = Inr (JObj [])
         \<or> JSON_parse (or_empty_object (e_ai_summary (r_episode r))) = Inl SyntaxError"
proof (cases "e_ai_summary (r_episode r)")
  case None
  then show ?thesis by (simp add: or_empty_object_def)
next
  case (Some x)
  with assms obtain s where "x = Raw s" by auto
  with Some show ?thesis by (cases "s = []") (simp_all add: or_empty_object_def)
qed

lemma unparsable_renders:
  assumes "e_ai_summary (r_episode r) = None \<or> (\<exists>s. e_ai_summary (r_episode r) = Some (Raw s))"
  shows "\<not> is_priority r"
    and "renders r \<longleftrightarrow> r_podcasts r \<noteq> None \<and> list_all (\<lambda>ft. snd ft \<noteq> None) (r_topic_flags r)"
proof -
  from unparsable_summary [OF assms] show "\<not> is_priority r"
    by (auto simp: is_priority_def truthy_opt_def)
  from unparsable_summary [OF assms] have "parsed_summary r = JObj []"
    by (auto simp: parsed_summary_def)
  then show "renders r \<longleftrightarrow> r_podcasts r \<noteq> None \<and> list_all (\<lambda>ft. snd ft \<noteq> None) (r_topic_flags r)"
    by (simp add: renders_def paragraphs_ok_def truthy_opt_def)
qed

lemma null_summary_throws: "generateDigestHTML [null_summary_row] = Inl TypeError"
  by code_simp

lemma r_episode_join_row [simp]: "r_episode (join_row d e) = e"
  by (simp add: join_row_def)

lemma select_digest_episodes:
  "map r_episode (select_digest since d) =
     sort_key (\<lambda>e. - e_published_at e)
       (filter (\<lambda>e. since \<le> e_published_at e \<and> e_processed e) (episodes d))"
  by (simp add: select_digest_def comp_def)

lemma select_digest_mset:
  "mset (map r_episode (select_digest since d)) =
     mset (filter (\<lambda>e. since \<le> e_published_at e \<and> e_processed e) (episodes d))"
  by (simp add: select_digest_episodes)

lemma select_digest_sorted:
  "sorted_wrt (\<lambda>a b. e_published_at (r_episode b) \<le> e_published_at (r_episode a))
     (select_digest since d)"
proof -
  let ?es = "sort_key (\<lambda>e. - e_published_at e)
       (filter (\<lambda>e. since \<le> e_published_at e \<and> e_processed e) (episodes d))"
  have "sorted (map (\<lambda>e. - e_published_at e) ?es)"
    by (rule sorted_sort_key)
  then have "sorted_wrt (\<lambda>a b. e_published_at b \<le> e_published_at a) ?es"
    by (simp add: sorted_map)
  then have "sorted_wrt (\<lambda>a b. e_published_at b \<le> e_published_at a)
               (map r_episode (select_digest since d))"
    by (simp add: select_digest_episodes)
  then show ?thesis
    by (simp add: sorted_wrt_map)
qed

lemma generateDigestHTML_throws:
  assumes "\<not> list_all renders rows"
  shows "generateDigestHTML rows = Inl TypeError"
proof (cases "generateDigestHTML rows")
  case (Inl e)
  have R: "render_all b xs = Inl e' \<Longrightarrow> e' = TypeError" for b xs e'
    by (induction xs arbitrary: e')
       (auto simp: generateEpisodeHTML_def split: sum.splits if_splits)
  from Inl have "e = TypeError"
    unfolding generateDigestHTML_def Let_def
    by (auto split: if_splits sum.splits dest: R
        simp: map_sum_def)
  with Inl show ?thesis by simp
next
  case (Inr html)
  then have "html = digest_markup rows"
    by (rule generateDigestHTML_Inr)
  have "list_all renders rows"
  proof (rule ccontr)
    assume N: "\<not> list_all renders rows"
    have P: "list_all renders (filter is_priority rows)"
    proof (cases "render_all True (filter is_priority rows)")
      case (Inl e)
      have "filter is_priority rows = []"
      proof (rule ccontr)
        assume "filter is_priority rows \<noteq> []"
        then have "generateDigestHTML rows = Inl e"
          unfolding generateDigestHTML_def Let_def Inl by simp
        with Inr show False by simp
      qed
      then show ?thesis by simp
    next
      case (Inr bs)
      then show ?thesis using render_all_Inr by blast
    qed
    have Q: "list_all renders (filter (\<lambda>r. \<not> is_priority r) rows)"
    proof (cases "render_all False (filter (\<lambda>r. \<not> is_priority r) rows)")
      case (Inl e)
      have "filter (\<lambda>r. \<not> is_priority r) rows = []"
      proof (rule ccontr)
        assume "filter (\<lambda>r. \<not> is_priority r) rows \<noteq> []"
        then have "generateDigestHTML rows = Inl e"
          unfolding generateDigestHTML_def Let_def regular_filter Inl
            render_all_renders [OF P, of True]
          by simp
        with \<open>generateDigestHTML rows = Inr html\<close> show False by simp
      qed
      then show ?thesis by simp
    next
      case (Inr bs)
      then show ?thesis using render_all_Inr by blast
    qed
    from P Q have "list_all renders rows"
      unfolding list_all_iff by auto
    with N show False by simp
  qed
  with assms show ?thesis by simp
qed

lemma sendDailyDigest_result [simp]: "fst (sendDailyDigest env w) = Inr ()"
proof -
  have "fst (sendDailyDigest_try env w) \<noteq> Inl NeverSettles"
    using generateDigestHTML_throws
      [of "select_digest (clock env (Suc (calls w)) - 24 * 60 * 60 * 1000) (db w)"]
      generateDigestHTML_renders
      [of "select_digest (clock env (Suc (calls w)) - 24 * 60 * 60 * 1000) (db w)"]
    by (cases "list_all renders
                 (select_digest (clock env (Suc (calls w)) - 24 * 60 * 60 * 1000) (db w))")
       (auto simp: sendDailyDigest_try_def Let_def split: fault.splits)
  then show ?thesis by (simp add: sendDailyDigest_def)
qed

lemma sendDailyDigest_db [simp]: "db (snd (sendDailyDigest env w)) = db w"
  by (auto simp: sendDailyDigest_def sendDailyDigest_try_def Let_def
      split: fault.splits sum.splits)

lemma no_settings [simp]: "\<not> truthy_str (settings_email None)"
  by (simp add: truthy_str_def settings_email_def)

lemma sendDailyDigest_outbox:
  "outbox (snd (sendDailyDigest env w)) =
     (if mail_goes_out env w
      then outbox w @
             [\<lparr>m_to = the (settings_email (single (user_settings (db w)))),
               m_html = digest_markup
                          (select_digest (clock env (Suc (calls w)) - 24 * 60 * 60 * 1000) (db w))\<rparr>]
      else outbox w)"
proof (cases "list_all renders
                 (select_digest (clock env (Suc (calls w)) - 24 * 60 * 60 * 1000) (db w))")
  case True
  from generateDigestHTML_renders [OF this] True show ?thesis
    by (auto simp: sendDailyDigest_def sendDailyDigest_try_def mail_goes_out_def Let_def
        split: fault.splits)
next
  case False
  from generateDigestHTML_throws [OF this] False show ?thesis
    by (auto simp: sendDailyDigest_def sendDailyDigest_try_def mail_goes_out_def Let_def
        split: fault.splits)
qed

lemma rendered_rows_sections:
  "(list_all renders rows \<longrightarrow>
      generateDigestHTML rows = Inr (digest_markup rows))
   \<and> (generateDigestHTML rows = Inr html \<longrightarrow>
        html = digest_markup rows
        \<and> blocks html =
            map (\<lambda>r. (r, True)) (filter is_priority rows)
            @ map (\<lambda>r. (r, False)) (filter (\<lambda>r. \<not> is_priority r) rows)
        \<and> mset (map fst (blocks html)) = mset rows)
   \<and> (is_priority r \<longleftrightarrow>
        (\<exists>kvs v. e_ai_summary (r_episode r) = Some (Json (JObj kvs))
           \<and> map_of kvs ''priority_episode'' = Some v \<and> truthy v))
   \<and> (e_ai_summary (r_episode r) = None \<or> (\<exists>s. e_ai_summary (r_episode r) = Some (Raw s)) \<longrightarrow>
        \<not> is_priority r
        \<and> (renders r \<longleftrightarrow>
             r_podcasts r \<noteq> None \<and> list_all (\<lambda>ft. snd ft \<noteq> None) (r_topic_flags r)))"
proof -
  have 1: "list_all renders rows \<longrightarrow> generateDigestHTML rows = Inr (digest_markup rows)"
    using generateDigestHTML_renders by blast
  have 2: "generateDigestHTML rows = Inr html \<longrightarrow>
        html = digest_markup rows
        \<and> blocks html =
            map (\<lambda>r. (r, True)) (filter is_priority rows)
            @ map (\<lambda>r. (r, False)) (filter (\<lambda>r. \<not> is_priority r) rows)
        \<and> mset (map fst (blocks html)) = mset rows"
  proof
    assume "generateDigestHTML rows = Inr html"
    then have H: "html = digest_markup rows"
      by (rule generateDigestHTML_Inr)
    have "mset (map fst (blocks (digest_markup rows))) = mset rows"
      by (simp add: blocks_digest_markup comp_def)
    then show "html = digest_markup rows
        \<and> blocks html =
            map (\<lambda>r. (r, True)) (filter is_priority rows)
            @ map (\<lambda>r. (r, False)) (filter (\<lambda>r. \<not> is_priority r) rows)
        \<and> mset (map fst (blocks html)) = mset rows"
      unfolding H by (simp add: blocks_digest_markup)
  qed
  note 3 = is_priority_iff [of r]
  have 4: "e_ai_summary (r_episode r) = None \<or> (\<exists>s. e_ai_summary (r_episode r) = Some (Raw s)) \<longrightarrow>
        \<not> is_priority r
        \<and> (renders r \<longleftrightarrow>
             r_podcasts r \<noteq> None \<and> list_all (\<lambda>ft. snd ft \<noteq> None) (r_topic_flags r))"
    using unparsable_renders [of r] by blast
  show ?thesis
    by (rule conjI [OF 1 conjI [OF 2 conjI [OF 3 4]]])
qed

subsection \<open>Feed checking\<close>

text \<open>
  C1 (amended). When the feed of a podcast was fetched, the episodes handed to the
  database for insertion are, in feed order, items whose publish date (\<open>pubDate\<close>,
  else \<open>isoDate\<close>) is a valid instant strictly later than the podcast's
  \<open>last_checked\<close>, a podcast without \<open>last_checked\<close> counting as checked at the Unix
  epoch: always an initial segment of these items, and exactly these items when the
  handling of the feed returns, which it does in every environment that settles. An
  item with a missing or unparsable date is therefore never processed. When the
  handling returns, the last request issued is the update of \<open>last_checked\<close> to the
  time read at that moment, and when the database accepts it the podcast's stored
  \<open>last_checked\<close> is that time.
\<close>

theorem new_items_processed:
  "rss_parseURL env (calls w) (p_rss_url p) = Resolves items \<longrightarrow>
   (let w' = snd (processPodcastFeed env p w); k = calls w' - 1;
        new = filter (\<lambda>it. \<exists>t. publishDate env it = Some t
                        \<and> (case p_last_checked p of None \<Rightarrow> 0 | Some c \<Rightarrow> c) < t) items
    in prefix (map Inr (inserted (issued w w'))) (map (episodeData env p) new)
       \<and> (settles env \<longrightarrow> fst (processPodcastFeed env p w) = Inr ())
       \<and> (fst (processPodcastFeed env p w) = Inr () \<longrightarrow>
            map Inr (inserted (issued w w')) = map (episodeData env p) new
            \<and> last (trace w') = DbUpdateLastChecked (p_id p) (clock env k)
            \<and> (db_fault env k = Accepted \<longrightarrow>
                 podcasts (db w') =
                   map (\<lambda>q. if p_id q = p_id p then q\<lparr>p_last_checked := Some (clock env k)\<rparr> else q)
                     (podcasts (db w)))))"
proof
  assume R: "rss_parseURL env (calls w) (p_rss_url p) = Resolves items"
  let ?w' = "snd (processPodcastFeed env p w)"
  let ?new = "filter (\<lambda>it. \<exists>t. publishDate env it = Some t
                        \<and> (case p_last_checked p of None \<Rightarrow> 0 | Some c \<Rightarrow> c) < t) items"
  have F: "filter (is_newer env (lastChecked p)) items = ?new"
    by (rule filter_cong) (simp_all add: is_newer_iff)
  have 0: "prefix (map Inr (inserted (issued w ?w'))) (map (episodeData env p) ?new)"
  proof -
    from processPodcastFeed_shape [of env p w] R obtain es where
      S: "trace ?w' = trace w @ RssFetch (p_rss_url p) # es"
         "prefix (map Inr (inserted es))
            (map (episodeData env p) (filter (is_newer env (lastChecked p)) items))"
      by blast
    have "issued w ?w' = RssFetch (p_rss_url p) # es"
      using S(1) by (rule issued_append)
    with S(2) F show ?thesis by simp
  qed
  have 1: "map Inr (inserted (issued w ?w')) = map (episodeData env p) ?new
            \<and> last (trace ?w') = DbUpdateLastChecked (p_id p) (clock env (calls ?w' - 1))
            \<and> (db_fault env (calls ?w' - 1) = Accepted \<longrightarrow>
                 podcasts (db ?w') =
                   map (\<lambda>q. if p_id q = p_id p
                             then q\<lparr>p_last_checked := Some (clock env (calls ?w' - 1))\<rparr> else q)
                     (podcasts (db w)))"
    if G: "fst (processPodcastFeed env p w) = Inr ()"
  proof -
    from processPodcastFeed_resolved [OF R G] obtain es where
      E: "trace ?w' = trace w @ RssFetch (p_rss_url p) # es @
               [DbUpdateLastChecked (p_id p) (clock env (Suc (calls w + length es)))]"
         "map Inr (inserted es) =
              map (episodeData env p) (filter (is_newer env (lastChecked p)) items)"
         "podcasts (db ?w') =
              (if db_fault env (Suc (calls w + length es)) = Accepted
               then map (\<lambda>q. if p_id q = p_id p
                              then q\<lparr>p_last_checked := Some (clock env (Suc (calls w + length es)))\<rparr>
                              else q) (podcasts (db w))
               else podcasts (db w))"
      by blast
    have K: "calls ?w' - 1 = Suc (calls w + length es)"
      using E(1) by (simp add: calls_def)
    have I: "issued w ?w' = RssFetch (p_rss_url p) # es @
               [DbUpdateLastChecked (p_id p) (clock env (Suc (calls w + length es)))]"
      using E(1) by (rule issued_append)
    have a: "map Inr (inserted (issued w ?w')) = map (episodeData env p) ?new"
      unfolding I using E(2) F by simp
    have b: "last (trace ?w') = DbUpdateLastChecked (p_id p) (clock env (calls ?w' - 1))"
      unfolding K using E(1) by simp
    have c: "db_fault env (calls ?w' - 1) = Accepted \<longrightarrow>
           podcasts (db ?w') =
             map (\<lambda>q. if p_id q = p_id p
                       then q\<lparr>p_last_checked := Some (clock env (calls ?w' - 1))\<rparr> else q)
               (podcasts (db w))"
      unfolding K using E(3) by simp
    from a b c show ?thesis by blast
  qed
  have 2: "settles env \<longrightarrow> fst (processPodcastFeed env p w) = Inr ()"
    using settles_processPodcastFeed [of env p w] by blast
  from 0 1 2 show "let w' = snd (processPodcastFeed env p w); k = calls w' - 1;
        new = filter (\<lambda>it. \<exists>t. publishDate env it = Some t
                        \<and> (case p_last_checked p of None \<Rightarrow> 0 | Some c \<Rightarrow> c) < t) items
    in prefix (map Inr (inserted (issued w w'))) (map (episodeData env p) new)
       \<and> (settles env \<longrightarrow> fst (processPodcastFeed env p w) = Inr ())
       \<and> (fst (processPodcastFeed env p w) = Inr () \<longrightarrow>
            map Inr (inserted (issued w w')) = map (episodeData env p) new
            \<and> last (trace w') = DbUpdateLastChecked (p_id p) (clock env k)
            \<and> (db_fault env k = Accepted \<longrightarrow>
                 podcasts (db w') =
                   map (\<lambda>q. if p_id q = p_id p then q\<lparr>p_last_checked := Some (clock env k)\<rparr> else q)
                     (podcasts (db w))))"
    unfolding Let_def by blast
qed

theorem new_items_processed_witness:
  "rss_parseURL demo_env (calls demo_world) (p_rss_url demo_podcast)
     = Resolves [dated_item, undated_item]
   \<and> settles demo_env
   \<and> fst (processPodcastFeed demo_env demo_podcast demo_world) = Inr ()
   \<and> db_fault demo_env (calls (snd (processPodcastFeed demo_env demo_podcast demo_world)) - 1)
       = Accepted
   \<and> last (trace (snd (processPodcastFeed demo_env demo_podcast demo_world)))
       = DbUpdateLastChecked 1 1704200000011
   \<and> map p_last_checked (podcasts (db (snd (processPodcastFeed demo_env demo_podcast demo_world))))
       = [Some 1704200000011]"
proof -
  let ?w' = "snd (processPodcastFeed demo_env demo_podcast demo_world)"
  have h: "rss_parseURL demo_env (calls demo_world) (p_rss_url demo_podcast)
     = Resolves [dated_item, undated_item]"
    by (simp add: demo_env_def)
  have s: "settles demo_env"
    by (simp add: settles_def demo_env_def)
  from new_items_processed [of demo_env demo_world demo_podcast "[dated_item, undated_item]"] h s
  have g: "fst (processPodcastFeed demo_env demo_podcast demo_world) = Inr ()"
    unfolding Let_def by blast
  have a: "db_fault demo_env (calls ?w' - 1) = Accepted"
    by (simp add: demo_env_def)
  have k: "clock demo_env (calls ?w' - 1) = 1704200000011"
    by code_simp
  have p: "p_id demo_podcast = 1" "podcasts (db demo_world) = [demo_podcast]"
    by (simp_all add: demo_podcast_def demo_world_def demo_db_def)
  from new_items_processed [of demo_env demo_world demo_podcast "[dated_item, undated_item]"] h g
  have "last (trace ?w') = DbUpdateLastChecked (p_id demo_podcast) (clock demo_env (calls ?w' - 1))"
    and "db_fault demo_env (calls ?w' - 1) = Accepted \<longrightarrow>
           podcasts (db ?w') =
             map (\<lambda>q. if p_id q = p_id demo_podcast
                       then q\<lparr>p_last_checked := Some (clock demo_env (calls ?w' - 1))\<rparr> else q)
               (podcasts (db demo_world))"
    unfolding Let_def by blast+
  with a k p have "last (trace ?w') = DbUpdateLastChecked 1 1704200000011"
    and "podcasts (db ?w') = [demo_podcast\<lparr>p_last_checked := Some 1704200000011\<rparr>]"
    by simp_all
  with h s g a show ?thesis by simp
qed

text \<open>
  The claim as stated fails: a podcast that was never checked has a feed of two items,
  and only the dated one is processed.
\<close>

theorem undated_item_counterexample:
  "p_last_checked demo_podcast = None
   \<and> rss_parseURL demo_env (calls demo_world) (p_rss_url demo_podcast)
       = Resolves [dated_item, undated_item]
   \<and> map d_title (inserted (issued demo_world
        (snd (processPodcastFeed demo_env demo_podcast demo_world)))) = [''Episode one'']"
  by code_simp

text \<open>
  C2 (the code departs from the claim). A download of audio whose response breaks off
  after the headers is a failure of the transcription stage that is neither caught nor
  logged: the promise around the download (index.js 210-213) is settled by the writer
  alone, so \<open>transcribeAudio\<close> never returns. In this run there are two active
  podcasts and the feed of the first has two new items; the download for the first item
  breaks off. The run ends with that request: the second item is never inserted, the
  feed of the second podcast is never fetched, and \<open>POST /check-feeds\<close> gives no
  answer. (In every environment that settles the run does go on, see
  \<open>settling_runs_go_on\<close>.)
\<close>

theorem broken_download_stops_the_run:
  "fst (checkAllFeeds stalling_env two_feed_world) = Inl NeverSettles
   \<and> fst (post_check_feeds stalling_env two_feed_world) = None
   \<and> issued two_feed_world (snd (checkAllFeeds stalling_env two_feed_world))
       = [DbSelectPodcasts, RssFetch ''https://example.org/feed'',
          DbInsertEpisode
            \<lparr>d_podcast_id = 1, d_title = ''Episode one'', d_description = Some ''about'',
             d_audio_url = Some ''https://example.org/1.mp3'',
             d_published_at = 1704067200000, d_duration_seconds = Some (Num 3723),
             d_processed = False\<rparr>,
          AudioDownload ''https://example.org/1.mp3'']
   \<and> filter (is_newer stalling_env (lastChecked demo_podcast)) [dated_item, later_item]
       = [dated_item, later_item]
   \<and> map p_id (filter p_is_active (podcasts (db two_feed_world))) = [1, 2]"
  by code_simp

text \<open>
  C5. When the query for the podcasts succeeds, the requests of a feed check that returns
  are the query followed by one block per active podcast, in the order of the query
  result: the fetch of the feed, the requests made while that feed is handled, and a
  timer of 2000 ms. No request of one feed falls inside the block of another. A feed
  check that does not return has issued the query, the complete blocks of the first
  \<open>k\<close> active podcasts and the begun block of the next one, and nothing for a later
  podcast. In every environment that settles the feed check returns.
\<close>

theorem feeds_one_at_a_time:
  "db_fault env (calls w) = Accepted \<longrightarrow>
   (let ps = filter p_is_active (podcasts (db w));
        block = (\<lambda>p seg. RssFetch (p_rss_url p) # seg @ [Sleep 2000]);
        w' = snd (checkAllFeeds env w)
    in (fst (checkAllFeeds env w) = Inr () \<longrightarrow>
          (\<exists>segs. length segs = length ps
             \<and> issued w w' = DbSelectPodcasts # concat (map2 block ps segs)
             \<and> list_all (list_all feed_event) segs))
       \<and> (fst (checkAllFeeds env w) \<noteq> Inr () \<longrightarrow>
          (\<exists>k segs seg. k < length ps \<and> length segs = k
             \<and> issued w w' =
                 DbSelectPodcasts # concat (map2 block (take k ps) segs)
                 @ RssFetch (p_rss_url (ps ! k)) # seg
             \<and> list_all (list_all feed_event) segs
             \<and> list_all feed_event seg))
       \<and> (settles env \<longrightarrow> fst (checkAllFeeds env w) = Inr ()))"
proof
  assume A: "db_fault env (calls w) = Accepted"
  let ?ps = "filter p_is_active (podcasts (db w))"
  let ?block = "\<lambda>p seg. RssFetch (p_rss_url p) # seg @ [Sleep 2000]"
  let ?w1 = "request DbSelectPodcasts w"
  let ?w' = "snd (checkAllFeeds env w)"
  note C = checkAllFeeds_accepted [OF A]
  have 1: "\<exists>segs. length segs = length ?ps
             \<and> issued w ?w' = DbSelectPodcasts # concat (map2 ?block ?ps segs)
             \<and> list_all (list_all feed_event) segs"
    if "fst (checkAllFeeds env w) = Inr ()"
  proof -
    from that have "fst (feeds_loop env ?ps ?w1) = Inr ()"
      using C by simp
    from feeds_loop_returns [OF this] obtain segs where
      S: "length segs = length ?ps"
         "trace (snd (feeds_loop env ?ps ?w1)) = trace ?w1 @ concat (map2 ?block ?ps segs)"
         "list_all (list_all feed_event) segs"
      by blast
    have "issued w ?w' = DbSelectPodcasts # concat (map2 ?block ?ps segs)"
      using S(2) by (intro issued_append) (simp add: C)
    with S(1,3) show ?thesis by blast
  qed
  have 2: "\<exists>k segs seg. k < length ?ps \<and> length segs = k
             \<and> issued w ?w' =
                 DbSelectPodcasts # concat (map2 ?block (take k ?ps) segs)
                 @ RssFetch (p_rss_url (?ps ! k)) # seg
             \<and> list_all (list_all feed_event) segs
             \<and> list_all feed_event seg"
    if "fst (checkAllFeeds env w) \<noteq> Inr ()"
  proof -
    from that have "fst (feeds_loop env ?ps ?w1) \<noteq> Inr ()"
      using C by simp
    from feeds_loop_hangs [OF this] obtain k segs seg where
      S: "k < length ?ps" "length segs = k"
         "trace (snd (feeds_loop env ?ps ?w1)) =
            trace ?w1 @ concat (map2 ?block (take k ?ps) segs)
            @ RssFetch (p_rss_url (?ps ! k)) # seg"
         "list_all (list_all feed_event) segs" "list_all feed_event seg"
      by blast
    have "issued w ?w' =
            DbSelectPodcasts # concat (map2 ?block (take k ?ps) segs)
            @ RssFetch (p_rss_url (?ps ! k)) # seg"
      using S(3) by (intro issued_append) (simp add: C)
    with S(1,2,4,5) show ?thesis by blast
  qed
  have 3: "settles env \<longrightarrow> fst (checkAllFeeds env w) = Inr ()"
    using settles_checkAllFeeds [of env w] by blast
  from 1 2 3 show "let ps = filter p_is_active (podcasts (db w));
        block = (\<lambda>p seg. RssFetch (p_rss_url p) # seg @ [Sleep 2000]);
        w' = snd (checkAllFeeds env w)
    in (fst (checkAllFeeds env w) = Inr () \<longrightarrow>
          (\<exists>segs. length segs = length ps
             \<and> issued w w' = DbSelectPodcasts # concat (map2 block ps segs)
             \<and> list_all (list_all feed_event) segs))
       \<and> (fst (checkAllFeeds env w) \<noteq> Inr () \<longrightarrow>
          (\<exists>k segs seg. k < length ps \<and> length segs = k
             \<and> issued w w' =
                 DbSelectPodcasts # concat (map2 block (take k ps) segs)
                 @ RssFetch (p_rss_url (ps ! k)) # seg
             \<and> list_all (list_all feed_event) segs
             \<and> list_all feed_event seg))
       \<and> (settles env \<longrightarrow> fst (checkAllFeeds env w) = Inr ())"
    unfolding Let_def by blast
qed

theorem feeds_one_at_a_time_witness:
  "db_fault flaky_env (calls two_feed_world) = Accepted
   \<and> settles flaky_env
   \<and> fst (checkAllFeeds flaky_env two_feed_world) = Inr ()
   \<and> filter p_is_active (podcasts (db two_feed_world)) = [demo_podcast, second_podcast]
   \<and> (\<exists>segs. length segs = length [demo_podcast, second_podcast]
        \<and> issued two_feed_world (snd (checkAllFeeds flaky_env two_feed_world)) =
            DbSelectPodcasts
            # concat (map2 (\<lambda>p seg. RssFetch (p_rss_url p) # seg @ [Sleep 2000])
                        [demo_podcast, second_podcast] segs)
        \<and> list_all (list_all feed_event) segs)
   \<and> issued two_feed_world (snd (checkAllFeeds flaky_env two_feed_world)) =
        [DbSelectPodcasts, RssFetch ''https://example.org/feed'', Sleep 2000,
         RssFetch ''https://example.org/other'', DbUpdateLastChecked 2 1704200000004,
         Sleep 2000]
   \<and> db_fault stalling_env (calls two_feed_world) = Accepted
   \<and> fst (checkAllFeeds stalling_env two_feed_world) \<noteq> Inr ()
   \<and> (\<exists>k segs seg. k < length [demo_podcast, second_podcast] \<and> length segs = k
        \<and> issued two_feed_world (snd (checkAllFeeds stalling_env two_feed_world)) =
            DbSelectPodcasts
            # concat (map2 (\<lambda>p seg. RssFetch (p_rss_url p) # seg @ [Sleep 2000])
                        (take k [demo_podcast, second_podcast]) segs)
            @ RssFetch (p_rss_url ([demo_podcast, second_podcast] ! k)) # seg
        \<and> list_all (list_all feed_event) segs
        \<and> list_all feed_event seg)"
proof -
  have h: "db_fault flaky_env (calls two_feed_world) = Accepted"
    by (simp add: flaky_env_def demo_env_def)
  have s: "settles flaky_env"
    by (simp add: settles_def flaky_env_def demo_env_def)
  have p: "filter p_is_active (podcasts (db two_feed_world)) = [demo_podcast, second_podcast]"
    by (simp add: two_feed_world_def demo_world_def demo_db_def demo_podcast_def
        idle_podcast_def second_podcast_def)
  have e: "issued two_feed_world (snd (checkAllFeeds flaky_env two_feed_world)) =
        [DbSelectPodcasts, RssFetch ''https://example.org/feed'', Sleep 2000,
         RssFetch ''https://example.org/other'', DbUpdateLastChecked 2 1704200000004,
         Sleep 2000]"
    by code_simp
  note T = feeds_one_at_a_time [of flaky_env two_feed_world, unfolded Let_def p]
  note g = T [THEN mp, OF h, THEN conjunct2, THEN conjunct2, THEN mp, OF s]
  note x = T [THEN mp, OF h, THEN conjunct1, THEN mp, OF g]
  have h2: "db_fault stalling_env (calls two_feed_world) = Accepted"
    by (simp add: stalling_env_def demo_env_def)
  have g2: "fst (checkAllFeeds stalling_env two_feed_world) \<noteq> Inr ()"
    by code_simp
  note U = feeds_one_at_a_time [of stalling_env two_feed_world, unfolded Let_def p]
  note y = U [THEN mp, OF h2, THEN conjunct2, THEN conjunct1, THEN mp, OF g2]
  show ?thesis
    by (rule conjI [OF h conjI [OF s conjI [OF g conjI [OF p conjI [OF x conjI [OF e
          conjI [OF h2 conjI [OF g2 y]]]]]]]])
qed



text \<open>
  C7. The cron callback of the feed check and \<open>POST /check-feeds\<close> leave the same
  world behind, and so do the cron callback of the digest and \<open>POST /send-digest\<close>.
  The callback of the digest returns normally; the callback of the feed check returns
  normally exactly when the endpoint answers, which is so in every environment that
  settles.
\<close>

theorem triggers_share_operations:
  "snd (post_check_feeds env w) = snd (cron_check_feeds env w)
   \<and> snd (post_send_digest env w) = snd (cron_send_digest env w)
   \<and> fst (cron_send_digest env w) = Inr ()
   \<and> fst (cron_check_feeds env w) =
       (if fst (post_check_feeds env w) = None then Inl NeverSettles else Inr ())
   \<and> (settles env \<longrightarrow> fst (cron_check_feeds env w) = Inr ())"
proof -
  obtain r w1 where C: "checkAllFeeds env w = (r, w1)"
    by force
  with checkAllFeeds_result [of env w] have R: "r = Inr () \<or> r = Inl NeverSettles"
    by simp
  obtain w2 where D: "sendDailyDigest env w = (Inr (), w2)"
    by (metis sendDailyDigest_result prod.collapse)
  have S: "fst (cron_check_feeds env w) = Inr ()" if "settles env"
    using settles_checkAllFeeds [OF that, of w] by (simp add: cron_check_feeds_def)
  from C R D S show ?thesis
    by (auto simp: post_check_feeds_def post_send_digest_def cron_check_feeds_def
        cron_send_digest_def respond_def)
qed

theorem triggers_share_operations_witness:
  "settles demo_env
   \<and> fst (cron_check_feeds demo_env demo_world) = Inr ()
   \<and> snd (post_check_feeds demo_env demo_world) = snd (cron_check_feeds demo_env demo_world)"
proof -
  have s: "settles demo_env"
    by (simp add: settles_def demo_env_def)
  from triggers_share_operations [of demo_env demo_world] s show ?thesis
    by blast
qed

subsection \<open>The AI pipeline\<close>

text \<open>
  What step 4 and step 5 of \<open>processEpisodeAI\<close> store, for every environment: when
  the update of step 4 is accepted, the stored \<open>ai_summary\<close> of the episode is the
  text of the summary stage, whatever the flag-topics stage wrote before.
\<close>

lemma episodes_insert_flags [simp]: "episodes (insert_flags fs d) = episodes d"
  by (simp add: insert_flags_def)

lemma episodes_update_episodes [simp]:
  "episodes (update_episodes i f d) = map (\<lambda>e. if e_id e = i then f e else e) (episodes d)"
  by (simp add: update_episodes_def)

lemma topic_flags_simps [simp]:
  "topic_flags (insert_flags fs d) = topic_flags d @ fs"
  "topic_flags (update_episodes i f d) = topic_flags d"
  by (simp_all add: insert_flags_def update_episodes_def)

lemma step4_overwrites_summary:
  assumes "transcribeAudio env (e_audio_url ep) w = (Inr tr, w1)"
    and "truthy_str tr"
    and "generateEnhancedSummary env ep (the tr) w1 = (s, w2)"
    and "flagInterestTopics env ep (the tr) w2 = (fl, w3)"
    and "db_fault env (calls w3) = Accepted"
  shows "episodes (db (snd (processEpisodeAI env ep w))) =
           map (\<lambda>e. if e_id e = e_id ep
                     then e\<lparr>e_transcript := tr, e_ai_summary := Some s, e_processed := True\<rparr>
                     else e) (episodes (db w3))"
    and "fl \<noteq> [] \<Longrightarrow> db_fault env (Suc (calls w3)) = Accepted \<Longrightarrow>
         topic_flags (db (snd (processEpisodeAI env ep w))) = topic_flags (db w3) @ fl"
  using assms
  by (auto simp: processEpisodeAI_def processEpisodeAI_try_def Let_def split: fault.splits)

text \<open>
  C4 (amended). When transcription yields a non-empty transcript the pipeline enters the
  stages fetch audio, transcribe, summarize, flag topics, persist in this order, each
  once; a stage is a run of one or more consecutive requests. When transcription yields
  no transcript, or does not return, only requests of the first two stages are issued
  (those of \<open>transcribeAudio\<close>) and the database is left as it was. No request is
  issued twice.
\<close>

theorem pipeline_stage_order:
  "(has_transcript (transcribeAudio env (e_audio_url ep) w)
      \<longrightarrow> stages_run (issued w (snd (processEpisodeAI env ep w)))
            = [FetchAudio, Transcribe, Summarize, FlagTopics, Persist])
   \<and> (\<not> has_transcript (transcribeAudio env (e_audio_url ep) w)
      \<longrightarrow> stages_run (issued w (snd (processEpisodeAI env ep w)))
            \<in> {[], [FetchAudio], [FetchAudio, Transcribe]}
          \<and> issued w (snd (processEpisodeAI env ep w))
            = issued w (snd (transcribeAudio env (e_audio_url ep) w))
          \<and> db (snd (processEpisodeAI env ep w)) = db w)
   \<and> distinct (issued w (snd (processEpisodeAI env ep w)))"
proof -
  from processEpisodeAI_shape [of env ep w] obtain es1 es3 es5 where E:
    "trace (snd (processEpisodeAI env ep w)) =
        trace w @ es1 @
          (if has_transcript (transcribeAudio env (e_audio_url ep) w)
           then ClaudeSummary (e_id ep) # DbSelectTopics # es3 @ DbUpdateEpisode (e_id ep) # es5
           else [])"
    "es1 \<in> {[], [AudioDownload (the (e_audio_url ep))],
                [AudioDownload (the (e_audio_url ep)), WhisperCall],
                [AudioDownload (the (e_audio_url ep)), WhisperCall, FsUnlink]}"
    "has_transcript (transcribeAudio env (e_audio_url ep) w)
            \<longrightarrow> es1 = [AudioDownload (the (e_audio_url ep)), WhisperCall, FsUnlink]"
    "es3 \<in> {[], [ClaudeFlags (e_id ep)], [ClaudeFlags (e_id ep), DbUpdatePriority (e_id ep)]}"
    "es5 = [] \<or> (\<exists>fs. es5 = [DbInsertFlags fs])"
    by blast
  have I: "issued w (snd (processEpisodeAI env ep w)) = es1 @
          (if has_transcript (transcribeAudio env (e_audio_url ep) w)
           then ClaudeSummary (e_id ep) # DbSelectTopics # es3 @ DbUpdateEpisode (e_id ep) # es5
           else [])"
    using E(1) by (rule issued_append)
  have full: "stages_run (issued w (snd (processEpisodeAI env ep w)))
            = [FetchAudio, Transcribe, Summarize, FlagTopics, Persist]"
    if "has_transcript (transcribeAudio env (e_audio_url ep) w)"
    using that E(3,4,5) unfolding I
    by (auto simp: stages_run_def List.map_filter_simps)
  have short: "stages_run (issued w (snd (processEpisodeAI env ep w)))
            \<in> {[], [FetchAudio], [FetchAudio, Transcribe]}"
    if "\<not> has_transcript (transcribeAudio env (e_audio_url ep) w)"
    using that E(2) unfolding I
    by (auto simp: stages_run_def List.map_filter_simps)
  have same: "issued w (snd (processEpisodeAI env ep w))
            = issued w (snd (transcribeAudio env (e_audio_url ep) w))"
      "db (snd (processEpisodeAI env ep w)) = db w"
    if "\<not> has_transcript (transcribeAudio env (e_audio_url ep) w)"
    using processEpisodeAI_no_transcript [OF that] by simp_all
  have dist: "distinct (issued w (snd (processEpisodeAI env ep w)))"
    using E(2,4,5) unfolding I by auto
  from full short same dist show ?thesis by blast
qed

theorem pipeline_stage_order_witness:
  "has_transcript (transcribeAudio demo_env (e_audio_url demo_episode) stored_world)
   \<and> stages_run (issued stored_world (snd (processEpisodeAI demo_env demo_episode stored_world)))
       = [FetchAudio, Transcribe, Summarize, FlagTopics, Persist]
   \<and> \<not> has_transcript (transcribeAudio demo_env (e_audio_url silent_episode) stored_world)
   \<and> db (snd (processEpisodeAI demo_env silent_episode stored_world)) = db stored_world"
proof -
  have h: "has_transcript (transcribeAudio demo_env (e_audio_url demo_episode) stored_world)"
    by code_simp
  have n: "\<not> has_transcript (transcribeAudio demo_env (e_audio_url silent_episode) stored_world)"
    by code_simp
  from pipeline_stage_order [of demo_env demo_episode stored_world] h
  have 1: "stages_run (issued stored_world (snd (processEpisodeAI demo_env demo_episode stored_world)))
       = [FetchAudio, Transcribe, Summarize, FlagTopics, Persist]"
    by blast
  from pipeline_stage_order [of demo_env silent_episode stored_world] n
  have 2: "db (snd (processEpisodeAI demo_env silent_episode stored_world)) = db stored_world"
    by blast
  from h n 1 2 show ?thesis by blast
qed

text \<open>
  The claim as stated fails where it says that each stage is a single call: in this
  run the transcribe stage issues two requests, the flag-topics stage three and the
  persist stage two.
\<close>

theorem stage_requests_counterexample:
  "stage_requests (issued stored_world (snd (processEpisodeAI demo_env demo_episode stored_world)))
     = [FetchAudio, Transcribe, Transcribe, Summarize, FlagTopics, FlagTopics, FlagTopics,
        Persist, Persist]"
  by code_simp

text \<open>
  C3 (the code departs from the claim). The topic-flagging reply marks the episode as a
  priority episode and the stage writes the marking (the request
  \<open>DbUpdatePriority\<close> is issued), but the update of step 4 then overwrites
  \<open>ai_summary\<close> with the text of the summary stage: the stored record is processed,
  holds that text, and is not a priority episode for the digest.
\<close>

theorem priority_marking_overwritten:
  "truthy_opt (field demo_analysis ''priority_episode'')
   \<and> DbUpdatePriority 0 \<in> set (issued stored_world
        (snd (processEpisodeAI demo_env demo_episode stored_world)))
   \<and> map e_ai_summary (episodes (db (snd (processEpisodeAI demo_env demo_episode stored_world))))
       = [Some (Json demo_summary)]
   \<and> map e_processed (episodes (db (snd (processEpisodeAI demo_env demo_episode stored_world))))
       = [True]
   \<and> map (is_priority \<circ> join_row (db (snd (processEpisodeAI demo_env demo_episode stored_world))))
        (episodes (db (snd (processEpisodeAI demo_env demo_episode stored_world))))
       = [False]"
  by code_simp

subsection \<open>The daily digest\<close>

text \<open>
  C9 (the code departs from the claim). A row whose \<open>ai_summary\<close> parses to
  \<open>null\<close>, or whose \<open>summary_paragraphs\<close> is a string, is not a priority episode,
  but it is not rendered in the regular section either: \<open>generateEpisodeHTML\<close>
  throws on it (index.js 517 and 527, outside any \<open>try\<close>), so
  \<open>generateDigestHTML\<close> returns no markup and the row that renders on its own is
  lost with it. In \<open>sendDailyDigest\<close> the three rows of the query then produce no
  mail. (Lists whose rows all render are rendered once each, in the section the claim
  names, see \<open>rendered_rows_sections\<close>.)
\<close>

theorem malformed_summary_breaks_digest:
  "generateDigestHTML [good_row]
     = Inr [Header, RegularHeading, EpisodeBlock good_row False, Footer]
   \<and> \<not> is_priority null_summary_row
   \<and> generateDigestHTML [good_row, null_summary_row] = Inl TypeError
   \<and> \<not> is_priority loose_paragraphs_row
   \<and> generateDigestHTML [good_row, loose_paragraphs_row] = Inl TypeError
   \<and> length (select_digest (clock demo_env 1 - 24 * 60 * 60 * 1000) (db null_summary_world)) = 3
   \<and> outbox (snd (sendDailyDigest demo_env null_summary_world)) = []"
  by code_simp

text \<open>
  C6 (amended). \<open>sendDailyDigest\<close> never changes the database. It sends one mail, to
  the configured address, exactly when both queries are answered, an address is
  configured, the query has rows, every row renders and the relay accepts the mail;
  otherwise it sends none: in particular none when there is no such episode or no
  address is configured. The mail holds the digest markup of the rows of the query:
  exactly the processed episodes whose \<open>published_at\<close> is at or after the instant 24
  hours before the clock was read (there is no upper bound), each rendered once; the
  rows come most recent first, and the mail shows the priority episodes first, then the
  others, each section most recent first.
\<close>

theorem daily_digest:
  "(let w' = snd (sendDailyDigest env w);
        since = clock env (Suc (calls w)) - 24 * 60 * 60 * 1000;
        rows = select_digest since (db w);
        address = settings_email (single (user_settings (db w)));
        newest_first = sorted_wrt (\<lambda>a b. e_published_at (r_episode b) \<le> e_published_at (r_episode a))
    in db w' = db w
       \<and> outbox w' =
           (if mail_goes_out env w
            then outbox w @ [\<lparr>m_to = the address, m_html = digest_markup rows\<rparr>]
            else outbox w)
       \<and> (rows = [] \<or> \<not> truthy_str address \<longrightarrow> outbox w' = outbox w)
       \<and> mset (map r_episode rows) =
           mset (filter (\<lambda>e. since \<le> e_published_at e \<and> e_processed e) (episodes (db w)))
       \<and> newest_first rows
       \<and> mset (map fst (blocks (digest_markup rows))) = mset rows
       \<and> blocks (digest_markup rows) =
           map (\<lambda>r. (r, True)) (filter is_priority rows)
           @ map (\<lambda>r. (r, False)) (filter (\<lambda>r. \<not> is_priority r) rows)
       \<and> newest_first (filter is_priority rows)
       \<and> newest_first (filter (\<lambda>r. \<not> is_priority r) rows))"
proof -
  let ?since = "clock env (Suc (calls w)) - 24 * 60 * 60 * 1000"
  let ?rows = "select_digest ?since (db w)"
  let ?nf = "sorted_wrt (\<lambda>a b. e_published_at (r_episode b) \<le> e_published_at (r_episode a))"
  have S: "?nf ?rows"
    by (rule select_digest_sorted)
  have SP: "?nf (filter is_priority ?rows)" "?nf (filter (\<lambda>r. \<not> is_priority r) ?rows)"
    using S by (rule sorted_wrt_filter)+
  have N: "?rows = [] \<or> \<not> truthy_str (settings_email (single (user_settings (db w))))
           \<longrightarrow> outbox (snd (sendDailyDigest env w)) = outbox w"
    unfolding sendDailyDigest_outbox by (auto simp: mail_goes_out_def)
  show ?thesis
    unfolding Let_def
    using sendDailyDigest_db [of env w] sendDailyDigest_outbox [of env w] N
      select_digest_mset [of ?since "db w"] S blocks_once [of ?rows] SP
      blocks_digest_markup [of ?rows]
    by (intro conjI)
qed

theorem daily_digest_witness:
  "mail_goes_out demo_env digest_world
   \<and> outbox digest_world = []
   \<and> map m_to (outbox (snd (sendDailyDigest demo_env digest_world))) = [''me@example.org'']
   \<and> map (block_ids \<circ> m_html) (outbox (snd (sendDailyDigest demo_env digest_world)))
       = [[(2, True), (3, False), (1, False)]]
   \<and> \<not> truthy_str (settings_email (single (user_settings (db unconfigured_world))))
   \<and> outbox (snd (sendDailyDigest demo_env unconfigured_world)) = outbox unconfigured_world
   \<and> db (snd (sendDailyDigest demo_env digest_world)) = db digest_world"
proof -
  let ?rows = "select_digest (clock demo_env (Suc (calls digest_world)) - 24 * 60 * 60 * 1000)
                 (db digest_world)"
  let ?mail = "\<lparr>m_to = the (settings_email (single (user_settings (db digest_world)))),
                m_html = digest_markup ?rows\<rparr>"
  have g: "mail_goes_out demo_env digest_world"
    by code_simp
  have e: "outbox digest_world = []"
    by (simp add: digest_world_def demo_world_def)
  note D = daily_digest [of demo_env digest_world, unfolded Let_def]
  from D have "outbox (snd (sendDailyDigest demo_env digest_world)) =
      (if mail_goes_out demo_env digest_world then outbox digest_world @ [?mail]
       else outbox digest_world)"
    by (elim conjE)
  with g e have o: "outbox (snd (sendDailyDigest demo_env digest_world)) = [?mail]"
    by simp
  have t: "map m_to [?mail] = [''me@example.org'']"
    by code_simp
  have b: "map (block_ids \<circ> m_html) [?mail] = [[(2, True), (3, False), (1, False)]]"
    by code_simp
  have h: "\<not> truthy_str (settings_email (single (user_settings (db unconfigured_world))))"
    by code_simp
  note U = daily_digest [of demo_env unconfigured_world, unfolded Let_def]
  from U have "select_digest (clock demo_env (Suc (calls unconfigured_world)) - 24 * 60 * 60 * 1000)
                 (db unconfigured_world) = []
      \<or> \<not> truthy_str (settings_email (single (user_settings (db unconfigured_world))))
      \<longrightarrow> outbox (snd (sendDailyDigest demo_env unconfigured_world)) = outbox unconfigured_world"
    by (elim conjE)
  with h have 1: "outbox (snd (sendDailyDigest demo_env unconfigured_world))
                  = outbox unconfigured_world"
    by blast
  from D have 2: "db (snd (sendDailyDigest demo_env digest_world)) = db digest_world"
    by (elim conjE)
  from t o have t': "map m_to (outbox (snd (sendDailyDigest demo_env digest_world)))
                     = [''me@example.org'']"
    by simp
  from b o have b': "map (block_ids \<circ> m_html) (outbox (snd (sendDailyDigest demo_env digest_world)))
       = [[(2, True), (3, False), (1, False)]]"
    by simp
  show ?thesis
    by (rule conjI [OF g conjI [OF e conjI [OF t' conjI [OF b' conjI [OF h conjI [OF 1 2]]]]]])
qed

text \<open>
  The claim as stated fails: the digest lists the older priority episode 2 before the
  more recent episodes, and includes episode 3, whose \<open>published_at\<close> is later than
  the time of the run.
\<close>

theorem digest_order_counterexample:
  "map (block_ids \<circ> m_html) (outbox (snd (sendDailyDigest demo_env digest_world)))
     = [[(2, True), (3, False), (1, False)]]
   \<and> e_published_at older_priority_episode < e_published_at recent_episode
   \<and> clock demo_env 1 < e_published_at future_episode"
  by code_simp

subsection \<open>parseDuration\<close>

lemma split_on_nonempty: "split_on c s \<noteq> []"
  by (induction s) (auto split: list.splits)

lemma length_split_on: "length (split_on c s) = Suc (length (filter (\<lambda>x. x = c) s))"
  by (induction s) (auto split: list.splits simp: split_on_nonempty)




end
